theory Spec2Isabelle
  imports Complex_Main "HOL-Library.Sublist" "HOL-Library.FSet"
begin

section \<open>Utils/base/DebugMsg.hh: marker matching\<close>





section \<open>Utils/base/Error.hh: the error facility\<close>

subsection \<open>The class Error\<close>

text \<open>The data members of \<^verbatim>\<open>class Error\<close> (Error.hh, lines 523-527).\<close>

record Error =
  m_condition :: string
  m_msg :: string
  m_file :: string
  m_line :: int
  m_type :: string

text \<open>
  Modelled from the spec: the bodies of the constructors \<^verbatim>\<open>Error(condition, file, line)\<close>,
  \<^verbatim>\<open>Error(condition, msg, file, line)\<close> and \<^verbatim>\<open>Error(condition, msg, type, file, line)\<close>
  are in Error.cc, which is not among the sources. Following their declarations
  (Error.hh, lines 273-293) each stores the information it is given; a constructor that
  is given no message stores the empty one, and one that is given no type stores
  \<^verbatim>\<open>"Error"\<close>, as the inline constructor and the copy constructor do. Printing on the
  error stream is not modelled.
\<close>

definition Error_cfl :: "string \<Rightarrow> string \<Rightarrow> int \<Rightarrow> Error" where
  "Error_cfl condition file line =
     \<lparr>m_condition = condition, m_msg = [], m_file = file, m_line = line, m_type = ''Error''\<rparr>"

definition Error_cmfl :: "string \<Rightarrow> string \<Rightarrow> string \<Rightarrow> int \<Rightarrow> Error" where
  "Error_cmfl condition msg file line =
     \<lparr>m_condition = condition, m_msg = msg, m_file = file, m_line = line, m_type = ''Error''\<rparr>"

definition Error_cmtfl :: "string \<Rightarrow> string \<Rightarrow> string \<Rightarrow> string \<Rightarrow> int \<Rightarrow> Error" where
  "Error_cmtfl condition msg type file line =
     \<lparr>m_condition = condition, m_msg = msg, m_file = file, m_line = line, m_type = type\<rparr>"

text \<open>The inline constructor \<^verbatim>\<open>Error(msg)\<close> (lines 304-306).\<close>

definition Error_m :: "string \<Rightarrow> Error" where
  "Error_m msg =
     \<lparr>m_condition = [], m_msg = msg, m_file = [], m_line = 0, m_type = ''Error''\<rparr>"

text \<open>The copy constructor (lines 311-314): the new object's type is \<^verbatim>\<open>"Error"\<close>.\<close>

definition Error_copy :: "Error \<Rightarrow> Error" where
  "Error_copy err =
     \<lparr>m_condition = m_condition err, m_msg = m_msg err, m_file = m_file err,
      m_line = m_line err, m_type = ''Error''\<rparr>"

text \<open>
  The assignment operator (lines 319-325), \<^verbatim>\<open>this = err\<close>: four members of the target
  are overwritten; \<^verbatim>\<open>m_type\<close> is not assigned.
\<close>

definition Error_assign :: "Error \<Rightarrow> Error \<Rightarrow> Error" where
  "Error_assign this err =
     this\<lparr>m_condition := m_condition err, m_msg := m_msg err, m_file := m_file err,
          m_line := m_line err\<rparr>"

definition setMsg :: "Error \<Rightarrow> string \<Rightarrow> Error" where
  "setMsg this msg = this\<lparr>m_msg := msg\<rparr>"

definition getMsg :: "Error \<Rightarrow> string" where
  "getMsg this = m_msg this"

definition setType :: "Error \<Rightarrow> string \<Rightarrow> Error" where
  "setType this type = this\<lparr>m_type := type\<rparr>"

definition getType :: "Error \<Rightarrow> string" where
  "getType this = m_type this"

definition getCondition :: "Error \<Rightarrow> string" where
  "getCondition this = m_condition this"

definition getLine :: "Error \<Rightarrow> int" where
  "getLine this = m_line this"

definition setFile :: "Error \<Rightarrow> string \<Rightarrow> Error" where
  "setFile this file = this\<lparr>m_file := file\<rparr>"

definition getFile :: "Error \<Rightarrow> string" where
  "getFile this = m_file this"

text \<open>\<^verbatim>\<open>operator==\<close> (lines 435-440) and \<^verbatim>\<open>matches\<close> (lines 446-450).\<close>

definition Error_eq :: "Error \<Rightarrow> Error \<Rightarrow> bool" where
  "Error_eq this err \<longleftrightarrow>
     m_condition this = m_condition err \<and> m_msg this = m_msg err \<and>
     m_file this = m_file err \<and> m_line this = m_line err"

definition matches :: "Error \<Rightarrow> Error \<Rightarrow> bool" where
  "matches this err \<longleftrightarrow>
     m_condition this = m_condition err \<and> m_msg this = m_msg err \<and>
     m_file this = m_file err"

subsection \<open>The static configuration\<close>

text \<open>
  The static members \<^verbatim>\<open>s_throw\<close>, \<^verbatim>\<open>s_printErrors\<close> and \<^verbatim>\<open>s_printWarnings\<close>
  (lines 528-530), passed explicitly. The output stream \<^verbatim>\<open>s_os\<close> is not modelled.
\<close>

record Error_statics =
  s_throw :: bool
  s_printErrors :: bool
  s_printWarnings :: bool

definition doDisplayErrors :: "Error_statics \<Rightarrow> Error_statics" where
  "doDisplayErrors st = st\<lparr>s_printErrors := True\<rparr>"

definition doNotDisplayErrors :: "Error_statics \<Rightarrow> Error_statics" where
  "doNotDisplayErrors st = st\<lparr>s_printErrors := False\<rparr>"

definition doDisplayWarnings :: "Error_statics \<Rightarrow> Error_statics" where
  "doDisplayWarnings st = st\<lparr>s_printWarnings := True\<rparr>"

definition doNotDisplayWarnings :: "Error_statics \<Rightarrow> Error_statics" where
  "doNotDisplayWarnings st = st\<lparr>s_printWarnings := False\<rparr>"

definition doThrowExceptions :: "Error_statics \<Rightarrow> Error_statics" where
  "doThrowExceptions st = st\<lparr>s_throw := True\<rparr>"

definition doNotThrowExceptions :: "Error_statics \<Rightarrow> Error_statics" where
  "doNotThrowExceptions st = st\<lparr>s_throw := False\<rparr>"

definition throwEnabled :: "Error_statics \<Rightarrow> bool" where
  "throwEnabled st = s_throw st"

subsection \<open>Raising an error\<close>

text \<open>
  How a piece of code ends: it returns a value, an \<^verbatim>\<open>Error\<close> leaves it as a C++
  exception, the process is aborted while reporting an \<^verbatim>\<open>Error\<close>, or the C and C++
  standards leave its behaviour undefined.
\<close>

datatype 'a outcome = Returns 'a | Throws Error | Aborts Error | Undefined

text \<open>
  Modelled from the spec: the body of \<^verbatim>\<open>Error::handleAssert\<close> is in Error.cc, which is
  not among the sources. It is declared \<^verbatim>\<open>__attribute__((noreturn))\<close> and documented
  (Error.hh, lines 514-519) as "Actually throw the exception or complain and abort.
  Which is done depends on throwEnabled()."
\<close>

definition handleAssert :: "Error_statics \<Rightarrow> Error \<Rightarrow> 'a outcome" where
  "handleAssert st this = (if throwEnabled st then Throws this else Aborts this)"

text \<open>
  The macro \<^verbatim>\<open>EUROPA_ERROR\<close> (line 66):
  \<^verbatim>\<open>if(Error::throwEnabled()) {throw __e__;} else {__e__.handleAssert();}\<close>.
  A throw expression initialises the exception object from its operand with the copy
  constructor.
\<close>

definition EUROPA_ERROR :: "Error_statics \<Rightarrow> Error \<Rightarrow> 'a outcome" where
  "EUROPA_ERROR st e = (if throwEnabled st then Throws (Error_copy e) else handleAssert st e)"

text \<open>
  The macros \<^verbatim>\<open>check_error\<close> and \<^verbatim>\<open>checkError\<close>, by their number of arguments
  (lines 95-116 and 164-200). The first parameter says whether \<^verbatim>\<open>EUROPA_FAST\<close> is
  defined in the build; \<open>cond_text\<close> is the stringified condition \<^verbatim>\<open>#cond\<close> (of \<^verbatim>\<open>check_error\<close> after the
  macros in it have been expanded), and
  \<open>file\<close> and \<open>line\<close> are \<^verbatim>\<open>__FILE__\<close> and \<^verbatim>\<open>__LINE__\<close> at the place of use. The
  flavour of the two-argument macros that is given an \<^verbatim>\<open>Error\<close> instead of a message
  differs only in the constructor it selects and is left out.
\<close>

definition check_error1 ::
  "bool \<Rightarrow> Error_statics \<Rightarrow> bool \<Rightarrow> string \<Rightarrow> string \<Rightarrow> int \<Rightarrow> unit outcome" where
  "check_error1 EUROPA_FAST st cond cond_text file line =
     (if EUROPA_FAST then Returns ()
      else if \<not> cond then EUROPA_ERROR st (Error_cfl cond_text file line)
      else Returns ())"

definition check_error2 ::
  "bool \<Rightarrow> Error_statics \<Rightarrow> bool \<Rightarrow> string \<Rightarrow> string \<Rightarrow> string \<Rightarrow> int \<Rightarrow> unit outcome" where
  "check_error2 EUROPA_FAST st cond cond_text msg file line =
     (if EUROPA_FAST then Returns ()
      else if \<not> cond then EUROPA_ERROR st (Error_cmfl cond_text msg file line)
      else Returns ())"

definition check_error3 ::
  "bool \<Rightarrow> Error_statics \<Rightarrow> bool \<Rightarrow> string \<Rightarrow> string \<Rightarrow> string \<Rightarrow> string \<Rightarrow> int
     \<Rightarrow> unit outcome" where
  "check_error3 EUROPA_FAST st cond cond_text msg type file line =
     (if EUROPA_FAST then Returns ()
      else if \<not> cond then EUROPA_ERROR st (Error_cmtfl cond_text msg type file line)
      else Returns ())"

definition checkError1 ::
  "bool \<Rightarrow> Error_statics \<Rightarrow> bool \<Rightarrow> string \<Rightarrow> string \<Rightarrow> int \<Rightarrow> unit outcome" where
  "checkError1 EUROPA_FAST st cond cond_text file line =
     (if EUROPA_FAST then Returns ()
      else if \<not> cond then EUROPA_ERROR st (Error_cfl cond_text file line)
      else Returns ())"

text \<open>\<open>sstr_msg\<close> is \<^verbatim>\<open>sstr.str()\<close>, the text the message expression streams.\<close>

definition checkError2 ::
  "bool \<Rightarrow> Error_statics \<Rightarrow> bool \<Rightarrow> string \<Rightarrow> string \<Rightarrow> string \<Rightarrow> int \<Rightarrow> unit outcome" where
  "checkError2 EUROPA_FAST st cond cond_text sstr_msg file line =
     (if EUROPA_FAST then Returns ()
      else if \<not> cond then EUROPA_ERROR st (Error_cmfl cond_text sstr_msg file line)
      else Returns ())"

text \<open>\<open>type_text\<close> is the stringified argument \<^verbatim>\<open>#type\<close>.\<close>

definition checkError3 ::
  "bool \<Rightarrow> Error_statics \<Rightarrow> bool \<Rightarrow> string \<Rightarrow> string \<Rightarrow> string \<Rightarrow> string \<Rightarrow> int
     \<Rightarrow> unit outcome" where
  "checkError3 EUROPA_FAST st cond cond_text sstr_msg type_text file line =
     (if EUROPA_FAST then Returns ()
      else if \<not> cond then EUROPA_ERROR st (Error_cmtfl cond_text sstr_msg type_text file line)
      else Returns ())"

text \<open>
  The macros \<^verbatim>\<open>check_runtime_error\<close> (lines 230-244) and \<^verbatim>\<open>checkRuntimeError\<close>
  (lines 258-264) stand outside the \<^verbatim>\<open>#ifdef EUROPA_FAST\<close>: they are the same in
  every build.
\<close>

definition check_runtime_error1 ::
  "Error_statics \<Rightarrow> bool \<Rightarrow> string \<Rightarrow> string \<Rightarrow> int \<Rightarrow> unit outcome" where
  "check_runtime_error1 st cond cond_text file line =
     (if \<not> cond then EUROPA_ERROR st (Error_cfl cond_text file line) else Returns ())"

definition check_runtime_error2 ::
  "Error_statics \<Rightarrow> bool \<Rightarrow> string \<Rightarrow> string \<Rightarrow> string \<Rightarrow> int \<Rightarrow> unit outcome" where
  "check_runtime_error2 st cond cond_text msg file line =
     (if \<not> cond then EUROPA_ERROR st (Error_cmfl cond_text msg file line) else Returns ())"

definition check_runtime_error3 ::
  "Error_statics \<Rightarrow> bool \<Rightarrow> string \<Rightarrow> string \<Rightarrow> string \<Rightarrow> string \<Rightarrow> int \<Rightarrow> unit outcome" where
  "check_runtime_error3 st cond cond_text msg type file line =
     (if \<not> cond then EUROPA_ERROR st (Error_cmtfl cond_text msg type file line)
      else Returns ())"

definition checkRuntimeError ::
  "Error_statics \<Rightarrow> bool \<Rightarrow> string \<Rightarrow> string \<Rightarrow> string \<Rightarrow> int \<Rightarrow> unit outcome" where
  "checkRuntimeError st cond cond_text sstr_msg file line =
     (if \<not> cond then
        (let e = Error_cmfl cond_text sstr_msg file line
         in if throwEnabled st then Throws (Error_copy e) else handleAssert st e)
      else Returns ())"

text \<open>The error an outcome raised, thrown or reported while aborting, if any.\<close>

fun raised :: "'a outcome \<Rightarrow> Error option" where
  "raised (Throws e) = Some e"
| "raised (Aborts e) = Some e"
| "raised _ = None"

text \<open>
  An error \<open>e\<close> raised the way the configured mode asks for: thrown (the exception
  object is a copy of \<open>e\<close>) when throwing is enabled, and otherwise handed to
  \<^verbatim>\<open>handleAssert\<close>, which aborts.
\<close>

definition raised_by_mode :: "Error_statics \<Rightarrow> Error \<Rightarrow> 'a outcome \<Rightarrow> bool" where
  "raised_by_mode st e r \<longleftrightarrow>
     (if throwEnabled st then r = Throws (Error_copy e)
      else r = handleAssert st e \<and> r = Aborts e)"

text \<open>Two configurations, as \<^verbatim>\<open>doThrowExceptions\<close> and \<^verbatim>\<open>doNotThrowExceptions\<close> leave them.\<close>

definition throw_mode :: Error_statics where
  "throw_mode = \<lparr>s_throw = True, s_printErrors = False, s_printWarnings = False\<rparr>"

definition abort_mode :: Error_statics where
  "abort_mode = \<lparr>s_throw = False, s_printErrors = False, s_printWarnings = False\<rparr>"

section \<open>Utils/base/DebugMsg.hh: enabling and finding messages\<close>

text \<open>
  The state of the debug stream, \<^verbatim>\<open>streamPtr()->rdstate()\<close>: the three error bits of
  \<^verbatim>\<open>std::ios_base\<close>. \<^verbatim>\<open>good()\<close> holds when none is set; \<^verbatim>\<open>goodbit\<close> is zero.
\<close>

record ios_state =
  badbit :: bool
  eofbit :: bool
  failbit :: bool

definition stream_good :: "ios_state \<Rightarrow> bool" where
  "stream_good stream \<longleftrightarrow> \<not> badbit stream \<and> \<not> eofbit stream \<and> \<not> failbit stream"

text \<open>The data members of \<^verbatim>\<open>class DebugMessage\<close> (DebugMsg.hh, lines 386-401).\<close>

record DebugMessage =
  m_file_dm :: string
  m_line_dm :: int
  m_marker :: string
  m_enabled :: bool

text \<open>Sequencing: what follows a piece of code runs only when that code returned.\<close>

fun and_then :: "'a outcome \<Rightarrow> ('a \<Rightarrow> 'b outcome) \<Rightarrow> 'b outcome" where
  "and_then (Returns x) f = f x"
| "and_then (Throws e) f = Throws e"
| "and_then (Aborts e) f = Aborts e"
| "and_then Undefined f = Undefined"

text \<open>
  \<^verbatim>\<open>DebugMessage::enable\<close> (lines 306-318): a \<^verbatim>\<open>checkError\<close> that the stream is good, whose
  message names the error bits that are set (the test of \<^verbatim>\<open>goodbit\<close>, which is zero, adds
  nothing), then \<^verbatim>\<open>m_enabled = true\<close>. \<open>FILE_text\<close> and \<open>LINE\<close> are \<^verbatim>\<open>__FILE__\<close> and
  \<^verbatim>\<open>__LINE__\<close> at the check. \<^verbatim>\<open>disable\<close> (lines 323-325) and \<^verbatim>\<open>isEnabled\<close> (lines 297-299).
\<close>

definition enable_text :: "ios_state \<Rightarrow> string" where
  "enable_text stream =
     ''cannot enable debug message(s) without a good debug stream: '' @
     (if badbit stream then '' bad '' else []) @
     (if eofbit stream then '' eof '' else []) @
     (if failbit stream then '' fail '' else [])"

definition enable ::
  "bool \<Rightarrow> Error_statics \<Rightarrow> ios_state \<Rightarrow> string \<Rightarrow> int \<Rightarrow> DebugMessage
     \<Rightarrow> DebugMessage outcome" where
  "enable EUROPA_FAST st stream FILE_text LINE this =
     and_then
       (checkError2 EUROPA_FAST st (stream_good stream) ''streamPtr()->good()''
          (enable_text stream) FILE_text LINE)
       (\<lambda>u. Returns (this\<lparr>m_enabled := True\<rparr>))"

definition disable :: "DebugMessage \<Rightarrow> DebugMessage" where
  "disable this = this\<lparr>m_enabled := False\<rparr>"

definition isEnabled :: "DebugMessage \<Rightarrow> bool" where
  "isEnabled this = m_enabled this"











section \<open>The data model\<close>

text \<open>
  Modelled from the spec: the domain classes are declared in
  ConstraintEngine/ConstraintEngineDefs.hh (\<^verbatim>\<open>IntervalDomain\<close>, \<^verbatim>\<open>IntervalIntDomain\<close>,
  \<^verbatim>\<open>BoolDomain\<close>, \<^verbatim>\<open>EnumeratedDomain\<close>, \<^verbatim>\<open>StringDomain\<close>) and defined in files that are
  not among the sources. Following section 3 of the specification a domain is a kind
  tag with, for Interval and IntervalInt, a lower and an upper bound (real for Interval,
  integer for IntervalInt) and, for Enumerated, Bool and Label, a set of member values;
  Enumerated and Label carry the is-open flag, Bool is always closed.
\<close>

datatype AbstractDomain =
    IntervalDomain real real
  | IntervalIntDomain int int
  | EnumeratedDomain "real fset" bool
  | BoolDomain "bool fset"
  | StringDomain "string fset" bool

datatype DomainKind = Interval | IntervalInt | Enumerated | Bool | Label

fun kind :: "AbstractDomain \<Rightarrow> DomainKind" where
  "kind (IntervalDomain lb ub) = Interval"
| "kind (IntervalIntDomain lb ub) = IntervalInt"
| "kind (EnumeratedDomain vs isOpen) = Enumerated"
| "kind (BoolDomain vs) = Bool"
| "kind (StringDomain vs isOpen) = Label"

text \<open>
  Identities are keys; \<^verbatim>\<open>noId\<close> is the key 0. An entity reference is optional
  (\<^verbatim>\<open>parent\<close> may be \<^verbatim>\<open>noId\<close>).
\<close>

type_synonym ConstrainedVariableId = nat
type_synonym ConstraintId = nat
type_synonym PropagatorId = nat
type_synonym EntityId = nat

text \<open>
  Modelled from the spec: the classes \<^verbatim>\<open>ConstrainedVariable\<close> and \<^verbatim>\<open>Variable\<close> are
  declared in ConstraintEngineDefs.hh and Variable.hh only. The attributes are those of
  section 3: identity, current domain, base domain, the \<open>specifiable\<close> and \<open>internal\<close>
  flags, the parent with the index in it, and the constraints that reference the variable
  (in the order they were attached).
\<close>

record ConstrainedVariable =
  v_key :: ConstrainedVariableId
  v_domain :: AbstractDomain
  v_baseDomain :: AbstractDomain
  v_internal :: bool
  v_specifiable :: bool
  v_name :: string
  v_parent :: EntityId
  v_index :: int
  v_constraints :: "ConstraintId list"

text \<open>
  Modelled from the spec: the class \<^verbatim>\<open>Constraint\<close> is declared in ConstraintEngineDefs.hh
  only. Section 3: identity, the name of its constraint type, the ordered scope, the
  propagation function and the validity state. The propagation function reads the current
  domains of the scope, in scope order, and answers with the restrictions it calls for:
  pairs of a scope position and the domain to intersect that member with, in call order.
\<close>

datatype ConstraintState = Active | Deferred | Deleted

record Constraint =
  c_key :: ConstraintId
  c_type :: string
  c_scope :: "ConstrainedVariableId list"
  c_function :: "AbstractDomain list \<Rightarrow> (nat \<times> AbstractDomain) list"
  c_state :: ConstraintState

text \<open>
  Modelled from the spec: the class \<^verbatim>\<open>Propagator\<close> is declared in ConstraintEngineDefs.hh
  only. Section 3: identity, the constraint types it services, and the agenda, a FIFO
  queue without duplicates.
\<close>

record Propagator =
  p_key :: PropagatorId
  p_types :: "string list"
  p_agenda :: "ConstraintId list"

text \<open>
  Modelled from the spec: the class \<^verbatim>\<open>ConstraintEngine\<close> is declared in
  ConstraintEngineDefs.hh only. Section 3: the registry of live variables and constraints,
  the propagators in priority order (highest first), the consistency flag, the
  propagation-in-progress flag, the deferred-update counter with the propagation request
  recorded while it is non-zero, and the next key to hand out as an identity.
\<close>

datatype Consistency = Unknown | Consistent | Inconsistent

record ConstraintEngine =
  variables :: "ConstrainedVariableId \<rightharpoonup> ConstrainedVariable"
  constraints :: "ConstraintId \<rightharpoonup> Constraint"
  propagators :: "Propagator list"
  consistency :: Consistency
  propagating :: bool
  deferred :: nat
  requested :: bool
  nextKey :: nat

section \<open>ConstraintEngine/component/IntervalIntTypeFactory.cc\<close>

text \<open>
  \<^verbatim>\<open>dynamic_cast<const IntervalIntDomain*>(&baseDomain)\<close> (line 30): the domain itself when
  its class is \<^verbatim>\<open>IntervalIntDomain\<close>, the null pointer (\<open>None\<close>) otherwise.
\<close>

fun dynamic_cast_IntervalIntDomain :: "AbstractDomain \<Rightarrow> AbstractDomain option" where
  "dynamic_cast_IntervalIntDomain (IntervalIntDomain lb ub) = Some (IntervalIntDomain lb ub)"
| "dynamic_cast_IntervalIntDomain _ = None"

text \<open>
  Modelled from the spec: the constructor of \<^verbatim>\<open>Variable<IntervalIntDomain>\<close> is in
  Variable.hh, which is not among the sources. Section 4.5: it "constructs a new
  ConstrainedVariable owning a copy of baseDomain as both its current and base domain,
  registers it with the engine"; the identity is the engine's next key.
\<close>

definition new_Variable ::
  "ConstraintEngine \<Rightarrow> AbstractDomain \<Rightarrow> bool \<Rightarrow> bool \<Rightarrow> string \<Rightarrow> EntityId \<Rightarrow> int
     \<Rightarrow> ConstrainedVariable \<times> ConstraintEngine" where
  "new_Variable constraintEngine baseDomain internal canBeSpecified name parent index =
     (let variable =
            \<lparr>v_key = nextKey constraintEngine, v_domain = baseDomain,
             v_baseDomain = baseDomain, v_internal = internal,
             v_specifiable = canBeSpecified, v_name = name, v_parent = parent,
             v_index = index, v_constraints = []\<rparr>
      in (variable,
          constraintEngine
            \<lparr>variables := (variables constraintEngine)(nextKey constraintEngine \<mapsto> variable),
             nextKey := Suc (nextKey constraintEngine)\<rparr>))"

text \<open>
  Modelled from the spec: \<^verbatim>\<open>getId\<close> is declared with the entity classes, which are not
  among the sources; it answers the identity of the variable.
\<close>

definition getId :: "ConstrainedVariable \<Rightarrow> ConstrainedVariableId" where
  "getId variable = v_key variable"

text \<open>
  Modelled from the spec: \<^verbatim>\<open>Id::isValid\<close> is in Id.hh, which is not among the sources. An
  identity is valid when it is not \<^verbatim>\<open>noId\<close> and names a registered variable.
\<close>

definition isValid :: "ConstraintEngine \<Rightarrow> ConstrainedVariableId \<Rightarrow> bool" where
  "isValid constraintEngine key \<longleftrightarrow> key \<noteq> 0 \<and> variables constraintEngine key \<noteq> None"

text \<open>A check that did not return ends the enclosing function the same way.\<close>

fun propagate_failure :: "unit outcome \<Rightarrow> 'a outcome" where
  "propagate_failure (Throws e) = Throws e"
| "propagate_failure (Aborts e) = Aborts e"
| "propagate_failure _ = Undefined"

text \<open>
  \<^verbatim>\<open>IntervalIntTypeFactory::createVariable\<close> (lines 21-39). The result pairs how the call
  ends with the engine as the call leaves it. Line 33 dereferences
  \<^verbatim>\<open>intervalIntDomain\<close>: behaviour is undefined when it is the null pointer. A
  \<^verbatim>\<open>new\<close> expression does not yield a null pointer, so the condition of line 34 is true.

  \<^verbatim>\<open>check_error\<close> hands its arguments on through \<^verbatim>\<open>_check_error\<close> and
  \<^verbatim>\<open>__check_error\<close> (Error.hh, lines 245-247), so the macro \<^verbatim>\<open>NULL\<close> in a condition is
  expanded before \<^verbatim>\<open>#cond\<close> turns the condition into text. What \<^verbatim>\<open>NULL\<close> expands to is
  the compiler's choice (\<^verbatim>\<open>__null\<close> with g++), and \<^verbatim>\<open>__FILE__\<close> is the path the compiler
  was given: the parameters \<open>NULL_text\<close> and \<open>FILE_text\<close>.
\<close>

definition createVariable ::
  "bool \<Rightarrow> string \<Rightarrow> string \<Rightarrow> Error_statics \<Rightarrow> ConstraintEngine \<Rightarrow> AbstractDomain \<Rightarrow> bool \<Rightarrow> bool \<Rightarrow> string
     \<Rightarrow> EntityId \<Rightarrow> int \<Rightarrow> ConstrainedVariableId outcome \<times> ConstraintEngine" where
  "createVariable EUROPA_FAST NULL_text FILE_text st constraintEngine baseDomain internal
       canBeSpecified name parent index =
     (let intervalIntDomain = dynamic_cast_IntervalIntDomain baseDomain
      in case check_error2 EUROPA_FAST st (intervalIntDomain \<noteq> None)
                (''intervalIntDomain != '' @ NULL_text)
                ''tried to create an IntervalIntDomain variable with a different kind of base domain''
                FILE_text 31 of
           Returns u \<Rightarrow>
             (case intervalIntDomain of
                None \<Rightarrow> (Undefined, constraintEngine)
              | Some d \<Rightarrow>
                  (let (variable, ce) =
                         new_Variable constraintEngine d internal canBeSpecified name parent
                           index
                   in case check_error2 EUROPA_FAST st True (''variable != '' @ NULL_text)
                             (''failed to create Variable for IntervalIntDomain with name '' @
                              [CHR 0x27] @ name @ [CHR 0x27])
                             FILE_text 34 of
                        Returns u \<Rightarrow>
                          (let ident = getId variable
                           in case check_error1 EUROPA_FAST st (isValid ce ident)
                                     ''id.isValid()'' FILE_text 37 of
                                Returns u \<Rightarrow> (Returns ident, ce)
                              | r \<Rightarrow> (propagate_failure r, ce))
                      | r \<Rightarrow> (propagate_failure r, ce)))
         | r \<Rightarrow> (propagate_failure r, constraintEngine))"

text \<open>
  The error of line 31, raised when the base domain is not an \<^verbatim>\<open>IntervalIntDomain\<close>: its
  condition is the text of \<^verbatim>\<open>intervalIntDomain != NULL\<close> with \<^verbatim>\<open>NULL\<close> expanded.
\<close>

definition type_mismatch_Error :: "string \<Rightarrow> string \<Rightarrow> Error" where
  "type_mismatch_Error NULL_text FILE_text =
     Error_cmfl (''intervalIntDomain != '' @ NULL_text)
       ''tried to create an IntervalIntDomain variable with a different kind of base domain''
       FILE_text 31"

text \<open>
  An engine with nothing registered, and the invariant of the key counter: keys start
  at 1 and no key from the counter on is in use.
\<close>

definition empty_engine :: ConstraintEngine where
  "empty_engine =
     \<lparr>variables = Map.empty, constraints = Map.empty, propagators = [],
      consistency = Unknown, propagating = False, deferred = 0, requested = False,
      nextKey = 1\<rparr>"

definition wf_keys :: "ConstraintEngine \<Rightarrow> bool" where
  "wf_keys ce \<longleftrightarrow> 0 < nextKey ce \<and> (\<forall>k. nextKey ce \<le> k \<longrightarrow> variables ce k = None)"

subsection \<open>createValue\<close>

text \<open>
  \<^verbatim>\<open>atoi\<close> of the C standard library: it skips leading white space (\<^verbatim>\<open>isspace\<close> in the C
  locale), reads an optional sign and the decimal digits that follow, and stops at the
  first other character; with no digit the value is 0. When the value cannot be
  represented in \<^verbatim>\<open>int\<close> (32 bits) the C standard leaves the behaviour undefined: \<open>None\<close>.
\<close>

definition isspace :: "char \<Rightarrow> bool" where
  "isspace c \<longleftrightarrow> c = CHR '' '' \<or> (9 :: nat) \<le> of_char c \<and> of_char c \<le> (13 :: nat)"

definition isdigit :: "char \<Rightarrow> bool" where
  "isdigit c \<longleftrightarrow> (48 :: nat) \<le> of_char c \<and> of_char c \<le> (57 :: nat)"

fun digits_value :: "int \<Rightarrow> string \<Rightarrow> int" where
  "digits_value acc [] = acc"
| "digits_value acc (c # cs) =
     (if isdigit c then digits_value (acc * 10 + (of_char c - 48)) cs else acc)"

definition INT_MIN :: int where
  "INT_MIN = - 2147483648"

definition INT_MAX :: int where
  "INT_MAX = 2147483647"

definition to_int :: "int \<Rightarrow> int option" where
  "to_int v = (if INT_MIN \<le> v \<and> v \<le> INT_MAX then Some v else None)"

definition atoi :: "string \<Rightarrow> int option" where
  "atoi nptr =
     (case dropWhile isspace nptr of
        [] \<Rightarrow> Some 0
      | c # cs \<Rightarrow>
          if c = CHR ''-'' then to_int (- digits_value 0 cs)
          else if c = CHR ''+'' then to_int (digits_value 0 cs)
          else to_int (digits_value 0 (c # cs)))"

text \<open>\<^verbatim>\<open>std::string::c_str\<close>: as a C string the text ends at its first null character.\<close>

definition c_str :: "string \<Rightarrow> string" where
  "c_str s = takeWhile (\<lambda>c. c \<noteq> CHR 0x00) s"

text \<open>
  \<^verbatim>\<open>IntervalIntTypeFactory::createValue\<close> (lines 47-50): \<^verbatim>\<open>return atoi(value.c_str())\<close>.
  The \<^verbatim>\<open>int\<close> is converted to \<^verbatim>\<open>edouble\<close>, which represents every \<^verbatim>\<open>int\<close> exactly.
\<close>

type_synonym edouble = real

definition createValue :: "string \<Rightarrow> edouble outcome" where
  "createValue v =
     (case atoi (c_str v) of
        None \<Rightarrow> Undefined
      | Some n \<Rightarrow> Returns (real_of_int n))"

text \<open>
  For comparison with the code, what \<^verbatim>\<open>atoi\<close> is specified to read (C standard, 7.22.1):
  a text splits into white space \<open>ws\<close>, an optional sign \<open>sg\<close>, decimal digits \<open>ds\<close> and
  a rest that does not continue them (it is empty or starts with a character that is not
  a digit; when there is neither sign nor digit it does not start with white space or
  a sign either). The value read is the decimal value of the digits, 0 when there are
  none, negated after a minus sign.
\<close>

definition decimal_value :: "string \<Rightarrow> int" where
  "decimal_value ds = horner_sum (\<lambda>c. of_char c - 48) 10 (rev ds)"

definition signed_value :: "string \<Rightarrow> string \<Rightarrow> int" where
  "signed_value sg ds = (if sg = ''-'' then - decimal_value ds else decimal_value ds)"

definition integer_prefix :: "string \<Rightarrow> string \<Rightarrow> string \<Rightarrow> string \<Rightarrow> bool" where
  "integer_prefix ws sg ds rest \<longleftrightarrow>
     list_all isspace ws \<and> (sg = [] \<or> sg = ''-'' \<or> sg = ''+'') \<and> list_all isdigit ds \<and>
     (case rest of
        [] \<Rightarrow> True
      | c # cs \<Rightarrow>
          \<not> isdigit c \<and>
          (if sg = [] \<and> ds = [] then \<not> isspace c \<and> c \<noteq> CHR ''-'' \<and> c \<noteq> CHR ''+'' else True))"

text \<open>
  The words of the specification, for comparison with the code: a well-formed integer
  literal is an optional sign followed by one or more decimal digits and nothing else.
\<close>

definition well_formed_integer_literal :: "string \<Rightarrow> bool" where
  "well_formed_integer_literal s \<longleftrightarrow>
     (case s of
        [] \<Rightarrow> False
      | c # cs \<Rightarrow>
          if c = CHR ''-'' \<or> c = CHR ''+'' then cs \<noteq> [] \<and> list_all isdigit cs
          else list_all isdigit (c # cs))"

section \<open>The domain algebra\<close>

text \<open>
  Modelled from the spec: the domain classes' member functions are not among the
  sources. Section 4.1 of the specification describes \<^verbatim>\<open>intersect\<close>, \<^verbatim>\<open>isEmpty\<close>
  and \<^verbatim>\<open>isSingleton\<close>, and section 4.2 the event a mutation emits.
\<close>

datatype DomainEvent = RESTRICTED | EMPTIED | SET_TO_SINGLETON | RELAXED | RESET | CLOSED

datatype ModelError =
    TypeMismatch | ValueError | UnknownVariable | ScopeViolation | ReentrantPropagation

text \<open>
  Modelled from the spec: the bounds of a domain that has bounds (Interval and
  IntervalInt), in the arithmetic of the reals.
\<close>

fun bounds :: "AbstractDomain \<Rightarrow> (real \<times> real) option" where
  "bounds (IntervalDomain lb ub) = Some (lb, ub)"
| "bounds (IntervalIntDomain lb ub) = Some (real_of_int lb, real_of_int ub)"
| "bounds _ = None"

text \<open>
  Modelled from the spec: a domain is empty when it has no member ("empties if
  lower > upper", "empties if resulting set is empty") and a singleton when it has
  exactly one.
\<close>

fun isEmpty :: "AbstractDomain \<Rightarrow> bool" where
  "isEmpty (IntervalDomain lb ub) = (ub < lb)"
| "isEmpty (IntervalIntDomain lb ub) = (ub < lb)"
| "isEmpty (EnumeratedDomain vs isOpen) = (vs = {||})"
| "isEmpty (BoolDomain vs) = (vs = {||})"
| "isEmpty (StringDomain vs isOpen) = (vs = {||})"

fun isSingleton :: "AbstractDomain \<Rightarrow> bool" where
  "isSingleton (IntervalDomain lb ub) = (lb = ub)"
| "isSingleton (IntervalIntDomain lb ub) = (lb = ub)"
| "isSingleton (EnumeratedDomain vs isOpen) = (fcard vs = 1)"
| "isSingleton (BoolDomain vs) = (fcard vs = 1)"
| "isSingleton (StringDomain vs isOpen) = (fcard vs = 1)"

text \<open>
  Modelled from the spec: the members after \<^verbatim>\<open>intersect(other)\<close>. Section 4.1:
  "Interval/IntervalInt: new bounds = elementwise max(lower), min(upper); IntervalInt
  additionally rounds the resulting lower bound up and upper bound down to the nearest
  representable integer"; "Enumerated/Bool/Label: new member set = set intersection by
  equality". The specification gives no overlap of a domain with bounds and a domain
  with a member set, or of member sets of different kinds: \<open>None\<close>.
\<close>

fun intersect_members :: "AbstractDomain \<Rightarrow> AbstractDomain \<Rightarrow> AbstractDomain option" where
  "intersect_members (IntervalDomain lb ub) other =
     (case bounds other of
        None \<Rightarrow> None
      | Some (l, u) \<Rightarrow> Some (IntervalDomain (max lb l) (min ub u)))"
| "intersect_members (IntervalIntDomain lb ub) other =
     (case bounds other of
        None \<Rightarrow> None
      | Some (l, u) \<Rightarrow>
          Some (IntervalIntDomain \<lceil>max (real_of_int lb) l\<rceil> \<lfloor>min (real_of_int ub) u\<rfloor>))"
| "intersect_members (EnumeratedDomain vs isOpen) (EnumeratedDomain ws otherOpen) =
     Some (EnumeratedDomain (vs |\<inter>| ws) isOpen)"
| "intersect_members (BoolDomain vs) (BoolDomain ws) = Some (BoolDomain (vs |\<inter>| ws))"
| "intersect_members (StringDomain vs isOpen) (StringDomain ws otherOpen) =
     Some (StringDomain (vs |\<inter>| ws) isOpen)"
| "intersect_members _ _ = None"

text \<open>
  Modelled from the spec: the one event of a restriction that took a domain from \<open>old\<close>
  to \<open>new\<close> (section 4.2); no event when the domain did not change.
\<close>

definition restriction_event :: "AbstractDomain \<Rightarrow> AbstractDomain \<Rightarrow> DomainEvent option" where
  "restriction_event old new =
     (if new = old then None
      else if isEmpty new then Some EMPTIED
      else if isSingleton new then Some SET_TO_SINGLETON
      else Some RESTRICTED)"

text \<open>
  Modelled from the spec: \<^verbatim>\<open>D.intersect(other)\<close> yields the domain after the call and the
  event emitted; domains whose kinds have no overlap defined are a type mismatch.
\<close>

definition intersect ::
  "AbstractDomain \<Rightarrow> AbstractDomain \<Rightarrow> ModelError + AbstractDomain \<times> DomainEvent option" where
  "intersect d other =
     (case intersect_members d other of
        None \<Rightarrow> Inl TypeMismatch
      | Some d' \<Rightarrow> Inr (d', restriction_event d d'))"

text \<open>
  Modelled from the spec: the relation \<open>D \<subseteq> base\<close> of sections 4.1 and 8. For
  domains with bounds the bounds of \<open>D\<close> lie within those of \<open>base\<close>; for member sets of
  the same kind every member of \<open>D\<close> is a member of \<open>base\<close>.
\<close>

fun isSubsetOf :: "AbstractDomain \<Rightarrow> AbstractDomain \<Rightarrow> bool" where
  "isSubsetOf (EnumeratedDomain vs isOpen) (EnumeratedDomain ws otherOpen) = (vs |\<subseteq>| ws)"
| "isSubsetOf (BoolDomain vs) (BoolDomain ws) = (vs |\<subseteq>| ws)"
| "isSubsetOf (StringDomain vs isOpen) (StringDomain ws otherOpen) = (vs |\<subseteq>| ws)"
| "isSubsetOf d base =
     (case (bounds d, bounds base) of
        (Some (lb, ub), Some (l, u)) \<Rightarrow> l \<le> lb \<and> ub \<le> u
      | _ \<Rightarrow> False)"

section \<open>The propagation engine\<close>

subsection \<open>Listener: activating constraints\<close>

text \<open>
  Modelled from the spec: the agenda is "FIFO with duplicate-suppression"; "enqueue is
  idempotent: activating an already-pending constraint is a no-op" (sections 3, 4.2).
\<close>

definition enqueue :: "ConstraintId \<Rightarrow> ConstraintId list \<Rightarrow> ConstraintId list" where
  "enqueue c agenda = (if c \<in> set agenda then agenda else agenda @ [c])"

text \<open>
  Modelled from the spec: "Enqueuing targets the Propagator responsible for each
  constraint's kind": the first propagator, in priority order, that services the type.
\<close>

fun activate_in :: "string \<Rightarrow> ConstraintId \<Rightarrow> Propagator list \<Rightarrow> Propagator list" where
  "activate_in ty c [] = []"
| "activate_in ty c (p # ps) =
     (if ty \<in> set (p_types p) then p\<lparr>p_agenda := enqueue c (p_agenda p)\<rparr> # ps
      else p # activate_in ty c ps)"

definition activate :: "ConstraintEngine \<Rightarrow> ConstraintId \<Rightarrow> ConstraintEngine" where
  "activate ce c =
     (case constraints ce c of
        None \<Rightarrow> ce
      | Some con \<Rightarrow> ce\<lparr>propagators := activate_in (c_type con) c (propagators ce)\<rparr>)"

text \<open>
  Modelled from the spec: the listener of section 4.2. "On any event other than a
  no-op, enqueue every Constraint in the variable's referencing set - except [...] the
  constraint currently executing its propagation function."
\<close>

definition notify ::
  "ConstraintEngine \<Rightarrow> ConstraintId option \<Rightarrow> ConstrainedVariable \<Rightarrow> ConstraintEngine" where
  "notify ce executing var =
     fold (\<lambda>c e. activate e c) (filter (\<lambda>c. Some c \<noteq> executing) (v_constraints var)) ce"

text \<open>
  Modelled from the spec: one restriction of a registered variable's domain, by the
  constraint \<open>executing\<close> or from outside (\<open>None\<close>): the domain is intersected with
  \<open>other\<close>, and on an event the listener activates the constraints that reference the
  variable.
\<close>

definition restrict_variable ::
  "ConstraintEngine \<Rightarrow> ConstraintId option \<Rightarrow> ConstrainedVariableId \<Rightarrow> AbstractDomain
     \<Rightarrow> ModelError + ConstraintEngine \<times> DomainEvent option" where
  "restrict_variable ce executing v other =
     (case variables ce v of
        None \<Rightarrow> Inl UnknownVariable
      | Some var \<Rightarrow>
          (case intersect (v_domain var) other of
             Inl err \<Rightarrow> Inl err
           | Inr (d, None) \<Rightarrow> Inr (ce, None)
           | Inr (d, Some ev) \<Rightarrow>
               (let var' = var\<lparr>v_domain := d\<rparr>
                in Inr (notify (ce\<lparr>variables := (variables ce)(v \<mapsto> var')\<rparr>) executing var',
                        Some ev))))"

subsection \<open>Executing one constraint\<close>

text \<open>
  Modelled from the spec: the current domains of a scope, in scope order; \<open>None\<close> when
  a member of the scope is not registered.
\<close>

fun scope_domains ::
  "ConstraintEngine \<Rightarrow> ConstrainedVariableId list \<Rightarrow> AbstractDomain list option" where
  "scope_domains ce [] = Some []"
| "scope_domains ce (v # vs) =
     (case variables ce v of
        None \<Rightarrow> None
      | Some var \<Rightarrow> map_option ((#) (v_domain var)) (scope_domains ce vs))"

text \<open>
  Modelled from the spec: the restrictions a propagation function calls for are applied
  in order to the scope members they name. The result says whether a domain emptied.
  Section 4.4: on an \<^verbatim>\<open>EMPTIED\<close> event everything stops "immediately, leaving all other
  agendas and domains exactly as they were at that instant", so the restrictions after
  the emptying one are not applied. A position outside the scope is a model error
  (section 4.3: a constraint "must not mutate any domain belonging to a variable
  outside its scope").
\<close>

fun apply_restrictions ::
  "ConstraintEngine \<Rightarrow> Constraint \<Rightarrow> (nat \<times> AbstractDomain) list
     \<Rightarrow> ModelError + ConstraintEngine \<times> bool" where
  "apply_restrictions ce con [] = Inr (ce, False)"
| "apply_restrictions ce con ((pos, other) # rs) =
     (if length (c_scope con) \<le> pos then Inl ScopeViolation
      else case restrict_variable ce (Some (c_key con)) (c_scope con ! pos) other of
             Inl err \<Rightarrow> Inl err
           | Inr (ce', ev) \<Rightarrow>
               if ev = Some EMPTIED then Inr (ce', True)
               else apply_restrictions ce' con rs)"

text \<open>Modelled from the spec: \<^verbatim>\<open>Constraint::propagate()\<close> (section 4.3).\<close>

definition execute :: "ConstraintEngine \<Rightarrow> Constraint \<Rightarrow> ModelError + ConstraintEngine \<times> bool" where
  "execute ce con =
     (case scope_domains ce (c_scope con) of
        None \<Rightarrow> Inl UnknownVariable
      | Some ds \<Rightarrow> apply_restrictions ce con (c_function con ds))"

subsection \<open>The fixpoint loop\<close>

text \<open>
  Modelled from the spec: step 3 of section 4.4 selects "the highest-priority
  Propagator with a non-empty agenda" and pops "one constraint from its agenda in FIFO
  order". The result is the constraint and the propagators after the pop.
\<close>

fun pop_next :: "Propagator list \<Rightarrow> (ConstraintId \<times> Propagator list) option" where
  "pop_next [] = None"
| "pop_next (p # ps) =
     (case p_agenda p of
        [] \<Rightarrow> map_option (\<lambda>(c, ps'). (c, p # ps')) (pop_next ps)
      | c # rest \<Rightarrow> Some (c, p\<lparr>p_agenda := rest\<rparr> # ps))"

text \<open>
  Modelled from the spec: one iteration of the loop of section 4.4, steps 3 and 4, with
  the list of the constraints executed so far. The loop stops when the engine is
  Inconsistent or when every agenda is empty (the engine becomes Consistent); otherwise
  the constraint popped is executed, and an \<^verbatim>\<open>EMPTIED\<close> event sets the engine
  Inconsistent and stops the loop. A constraint that is not Active, or no longer
  registered, is skipped (section 4.3).
\<close>

datatype loop_step =
    Stop "ModelError + ConstraintEngine \<times> ConstraintId list"
  | Continue ConstraintEngine "ConstraintId list"

definition loop_body :: "ConstraintEngine \<Rightarrow> ConstraintId list \<Rightarrow> loop_step" where
  "loop_body ce executed =
     (if consistency ce = Inconsistent then Stop (Inr (ce, executed))
      else case pop_next (propagators ce) of
             None \<Rightarrow> Stop (Inr (ce\<lparr>consistency := Consistent\<rparr>, executed))
           | Some (c, ps) \<Rightarrow>
               (case constraints ce c of
                  None \<Rightarrow> Continue (ce\<lparr>propagators := ps\<rparr>) executed
                | Some con \<Rightarrow>
                    if c_state con \<noteq> Active then Continue (ce\<lparr>propagators := ps\<rparr>) executed
                    else (case execute (ce\<lparr>propagators := ps\<rparr>) con of
                            Inl err \<Rightarrow> Stop (Inl err)
                          | Inr (ce', emptied) \<Rightarrow>
                              if emptied
                              then Stop (Inr (ce'\<lparr>consistency := Inconsistent\<rparr>,
                                              executed @ [c]))
                              else Continue ce' (executed @ [c]))))"

text \<open>
  Modelled from the spec: the loop itself. It need not end (section 5 leaves a
  constraint that never lets the agenda drain unguarded): \<open>fuel\<close> bounds the number of
  iterations and \<open>None\<close> says that it ran out.
\<close>

fun propagate_loop ::
  "nat \<Rightarrow> ConstraintEngine \<Rightarrow> ConstraintId list
     \<Rightarrow> (ModelError + ConstraintEngine \<times> ConstraintId list) option" where
  "propagate_loop 0 ce executed = None"
| "propagate_loop (Suc fuel) ce executed =
     (case loop_body ce executed of
        Stop result \<Rightarrow> Some result
      | Continue ce' executed' \<Rightarrow> propagate_loop fuel ce' executed')"

text \<open>
  Where a run stands after \<open>k\<close> iterations that did not stop: the engine and the
  constraints executed, at the head of the loop.
\<close>

fun iterations ::
  "nat \<Rightarrow> ConstraintEngine \<Rightarrow> ConstraintId list
     \<Rightarrow> (ConstraintEngine \<times> ConstraintId list) option" where
  "iterations 0 ce executed = Some (ce, executed)"
| "iterations (Suc k) ce executed =
     (case loop_body ce executed of
        Stop result \<Rightarrow> None
      | Continue ce' executed' \<Rightarrow> iterations k ce' executed')"

text \<open>
  Modelled from the spec: engine-level \<^verbatim>\<open>propagate()\<close>, steps 1 to 4 of section 4.4. The
  result is the engine after the run with the constraints executed, in order.
\<close>

definition propagate ::
  "nat \<Rightarrow> ConstraintEngine \<Rightarrow> (ModelError + ConstraintEngine \<times> ConstraintId list) option" where
  "propagate fuel ce =
     (if propagating ce then Some (Inl ReentrantPropagation)
      else if deferred ce \<noteq> 0 then Some (Inr (ce\<lparr>requested := True\<rparr>, []))
      else case propagate_loop fuel (ce\<lparr>propagating := True\<rparr>) [] of
             None \<Rightarrow> None
           | Some (Inl err) \<Rightarrow> Some (Inl err)
           | Some (Inr (ce', executed)) \<Rightarrow> Some (Inr (ce'\<lparr>propagating := False\<rparr>, executed)))"

text \<open>
  Modelled from the spec: the inbound operation \<^verbatim>\<open>restrict(variableId, domain)\<close> of
  section 6. A restriction that leaves nothing of the base domain "is rejected at the
  API with a value error, domain unchanged" (section 8); emptying the current domain
  sets the engine Inconsistent; the restriction then triggers a propagation.
\<close>

definition restrict ::
  "nat \<Rightarrow> ConstraintEngine \<Rightarrow> ConstrainedVariableId \<Rightarrow> AbstractDomain
     \<Rightarrow> (ModelError + ConstraintEngine \<times> ConstraintId list) option" where
  "restrict fuel ce v other =
     (case variables ce v of
        None \<Rightarrow> Some (Inl UnknownVariable)
      | Some var \<Rightarrow>
          (case intersect (v_baseDomain var) other of
             Inl err \<Rightarrow> Some (Inl err)
           | Inr (b, ev) \<Rightarrow>
               if isEmpty b then Some (Inl ValueError)
               else (case restrict_variable ce None v other of
                       Inl err \<Rightarrow> Some (Inl err)
                     | Inr (ce', ev') \<Rightarrow>
                         propagate fuel
                           (if ev' = Some EMPTIED then ce'\<lparr>consistency := Inconsistent\<rparr>
                            else ce'))))"

text \<open>
  Modelled from the spec: replaying a sequence of external restrictions, each followed
  by the propagation it triggers; the constraints executed are collected in order.
\<close>

fun replay ::
  "nat \<Rightarrow> ConstraintEngine \<Rightarrow> (ConstrainedVariableId \<times> AbstractDomain) list
     \<Rightarrow> ConstraintId list \<Rightarrow> (ModelError + ConstraintEngine \<times> ConstraintId list) option" where
  "replay fuel ce [] executed = Some (Inr (ce, executed))"
| "replay fuel ce ((v, other) # rs) executed =
     (case restrict fuel ce v other of
        None \<Rightarrow> None
      | Some (Inl err) \<Rightarrow> Some (Inl err)
      | Some (Inr (ce', ex)) \<Rightarrow> replay fuel ce' rs (executed @ ex))"

text \<open>
  Modelled from the spec: the selection of step 3 of section 4.4 ("the highest-priority
  Propagator with a non-empty agenda", "one constraint from its agenda in FIFO order"),
  stated on the list of propagators in priority order: every propagator before \<open>p\<close> has
  an empty agenda, \<open>c\<close> is the oldest entry of the agenda of \<open>p\<close>, and \<open>ps'\<close> is \<open>ps\<close>
  without that entry.
\<close>

definition selects :: "Propagator list \<Rightarrow> ConstraintId \<Rightarrow> Propagator list \<Rightarrow> bool" where
  "selects ps c ps' \<longleftrightarrow>
     (\<exists>before p rest after.
        ps = before @ p # after \<and> list_all (\<lambda>q. p_agenda q = []) before \<and>
        p_agenda p = c # rest \<and> ps' = before @ p\<lparr>p_agenda := rest\<rparr> # after)"

text \<open>
  Modelled from the spec: a propagation run in the order that sections 4.4 and 5 fix
  ("priority tier, then FIFO within tier"), as a relation between the engine at the head
  of the loop, the constraints executed so far, and the result of the run. The run is
  over when the engine is Inconsistent or every agenda is empty; otherwise the
  constraint selected is skipped (not registered, or not Active) or executed, and the
  run ends there when the execution fails or empties a domain.
\<close>

inductive run ::
  "ConstraintEngine \<Rightarrow> ConstraintId list \<Rightarrow> ModelError + ConstraintEngine \<times> ConstraintId list
     \<Rightarrow> bool" where
  inconsistent:
    "consistency ce = Inconsistent \<Longrightarrow> run ce executed (Inr (ce, executed))"
| drained:
    "consistency ce \<noteq> Inconsistent \<Longrightarrow>
     list_all (\<lambda>p. p_agenda p = []) (propagators ce) \<Longrightarrow>
     run ce executed (Inr (ce\<lparr>consistency := Consistent\<rparr>, executed))"
| unregistered:
    "consistency ce \<noteq> Inconsistent \<Longrightarrow> selects (propagators ce) c ps \<Longrightarrow>
     constraints ce c = None \<Longrightarrow>
     run (ce\<lparr>propagators := ps\<rparr>) executed result \<Longrightarrow>
     run ce executed result"
| not_active:
    "consistency ce \<noteq> Inconsistent \<Longrightarrow> selects (propagators ce) c ps \<Longrightarrow>
     constraints ce c = Some con \<Longrightarrow> c_state con \<noteq> Active \<Longrightarrow>
     run (ce\<lparr>propagators := ps\<rparr>) executed result \<Longrightarrow>
     run ce executed result"
| failed:
    "consistency ce \<noteq> Inconsistent \<Longrightarrow> selects (propagators ce) c ps \<Longrightarrow>
     constraints ce c = Some con \<Longrightarrow> c_state con = Active \<Longrightarrow>
     execute (ce\<lparr>propagators := ps\<rparr>) con = Inl err \<Longrightarrow>
     run ce executed (Inl err)"
| emptied:
    "consistency ce \<noteq> Inconsistent \<Longrightarrow> selects (propagators ce) c ps \<Longrightarrow>
     constraints ce c = Some con \<Longrightarrow> c_state con = Active \<Longrightarrow>
     execute (ce\<lparr>propagators := ps\<rparr>) con = Inr (ce', True) \<Longrightarrow>
     run ce executed (Inr (ce'\<lparr>consistency := Inconsistent\<rparr>, executed @ [c]))"
| executed:
    "consistency ce \<noteq> Inconsistent \<Longrightarrow> selects (propagators ce) c ps \<Longrightarrow>
     constraints ce c = Some con \<Longrightarrow> c_state con = Active \<Longrightarrow>
     execute (ce\<lparr>propagators := ps\<rparr>) con = Inr (ce', False) \<Longrightarrow>
     run ce' (executed @ [c]) result \<Longrightarrow>
     run ce executed result"

subsection \<open>Structurally identical engines\<close>

text \<open>
  Two variables, and two engines, with the same structure: the same keys, current and
  base domains and referencing constraints for every variable, the same constraints,
  the same propagators with the same agendas in the same order, and the same
  consistency, in-progress and deferred-update state. Names, flags, parents and the
  key counter are not part of the structure.
\<close>

definition same_structure :: "ConstrainedVariable \<Rightarrow> ConstrainedVariable \<Rightarrow> bool" where
  "same_structure a b \<longleftrightarrow>
     v_key a = v_key b \<and> v_domain a = v_domain b \<and> v_baseDomain a = v_baseDomain b \<and>
     v_constraints a = v_constraints b"

definition structurally_identical :: "ConstraintEngine \<Rightarrow> ConstraintEngine \<Rightarrow> bool" where
  "structurally_identical ce1 ce2 \<longleftrightarrow>
     (\<forall>v. rel_option same_structure (variables ce1 v) (variables ce2 v)) \<and>
     constraints ce1 = constraints ce2 \<and> propagators ce1 = propagators ce2 \<and>
     consistency ce1 = consistency ce2 \<and> propagating ce1 = propagating ce2 \<and>
     deferred ce1 = deferred ce2"

text \<open>
  Two runs with the same outcome: both ran out of fuel, or both failed with the same
  error, or both executed the same constraints in the same order and left structurally
  identical engines, with the same domain for every variable.
\<close>

definition same_outcome ::
  "(ModelError + ConstraintEngine \<times> ConstraintId list) option
     \<Rightarrow> (ModelError + ConstraintEngine \<times> ConstraintId list) option \<Rightarrow> bool" where
  "same_outcome r1 r2 \<longleftrightarrow>
     (case (r1, r2) of
        (None, None) \<Rightarrow> True
      | (Some (Inl e1), Some (Inl e2)) \<Rightarrow> e1 = e2
      | (Some (Inr (ce1, ex1)), Some (Inr (ce2, ex2))) \<Rightarrow>
          ex1 = ex2 \<and> structurally_identical ce1 ce2 \<and>
          (\<forall>v. map_option v_domain (variables ce1 v) = map_option v_domain (variables ce2 v))
      | _ \<Rightarrow> False)"

text \<open>The same relation on the results of the parts of a run.\<close>

definition same_result ::
  "ModelError + ConstraintEngine \<times> 'a \<Rightarrow> ModelError + ConstraintEngine \<times> 'a \<Rightarrow> bool" where
  "same_result r1 r2 \<longleftrightarrow> rel_sum (=) (rel_prod structurally_identical (=)) r1 r2"

fun same_step :: "loop_step \<Rightarrow> loop_step \<Rightarrow> bool" where
  "same_step (Stop r1) (Stop r2) = same_result r1 r2"
| "same_step (Continue ce1 ex1) (Continue ce2 ex2) =
     (structurally_identical ce1 ce2 \<and> ex1 = ex2)"
| "same_step _ _ = False"

definition same_run ::
  "(ModelError + ConstraintEngine \<times> ConstraintId list) option
     \<Rightarrow> (ModelError + ConstraintEngine \<times> ConstraintId list) option \<Rightarrow> bool" where
  "same_run r1 r2 \<longleftrightarrow> rel_option same_result r1 r2"

text \<open>
  Two structurally identical engines that differ in what is not structure (the name,
  flags, parent and index of the variable, the key counter, the pending request): a
  variable \<open>x\<close> in \<open>[1, 10]\<close>; two propagators, the first for the constraints of type
  \<^verbatim>\<open>temporal\<close> and the second for those of type \<^verbatim>\<open>default\<close>; the constraint 20 of the
  first, which bounds \<open>x\<close> from below by 2, and the constraints 10 and 11 of the second,
  which restrict nothing. The variable is referenced by 10, 20 and 11, in this order;
  nothing is pending.
\<close>

definition first_engine :: ConstraintEngine where
  "first_engine =
     \<lparr>variables =
        [1 \<mapsto> \<lparr>v_key = 1, v_domain = IntervalIntDomain 1 10,
                v_baseDomain = IntervalIntDomain 1 10, v_internal = False,
                v_specifiable = True, v_name = ''x'', v_parent = 0, v_index = 0,
                v_constraints = [10, 20, 11]\<rparr>],
      constraints =
        [10 \<mapsto> \<lparr>c_key = 10, c_type = ''default'', c_scope = [1],
                 c_function = (\<lambda>ds. []), c_state = Active\<rparr>,
         11 \<mapsto> \<lparr>c_key = 11, c_type = ''default'', c_scope = [1],
                 c_function = (\<lambda>ds. []), c_state = Active\<rparr>,
         20 \<mapsto> \<lparr>c_key = 20, c_type = ''temporal'', c_scope = [1],
                 c_function = (\<lambda>ds. [(0, IntervalIntDomain 2 100)]), c_state = Active\<rparr>],
      propagators = [\<lparr>p_key = 1, p_types = [''temporal''], p_agenda = []\<rparr>,
                     \<lparr>p_key = 2, p_types = [''default''], p_agenda = []\<rparr>],
      consistency = Unknown, propagating = False, deferred = 0, requested = False,
      nextKey = 21\<rparr>"

definition second_engine :: ConstraintEngine where
  "second_engine =
     \<lparr>variables =
        [1 \<mapsto> \<lparr>v_key = 1, v_domain = IntervalIntDomain 1 10,
                v_baseDomain = IntervalIntDomain 1 10, v_internal = True,
                v_specifiable = False, v_name = ''y'', v_parent = 7, v_index = 3,
                v_constraints = [10, 20, 11]\<rparr>],
      constraints =
        [10 \<mapsto> \<lparr>c_key = 10, c_type = ''default'', c_scope = [1],
                 c_function = (\<lambda>ds. []), c_state = Active\<rparr>,
         11 \<mapsto> \<lparr>c_key = 11, c_type = ''default'', c_scope = [1],
                 c_function = (\<lambda>ds. []), c_state = Active\<rparr>,
         20 \<mapsto> \<lparr>c_key = 20, c_type = ''temporal'', c_scope = [1],
                 c_function = (\<lambda>ds. [(0, IntervalIntDomain 2 100)]), c_state = Active\<rparr>],
      propagators = [\<lparr>p_key = 1, p_types = [''temporal''], p_agenda = []\<rparr>,
                     \<lparr>p_key = 2, p_types = [''default''], p_agenda = []\<rparr>],
      consistency = Unknown, propagating = False, deferred = 0, requested = True,
      nextKey = 40\<rparr>"

subsection \<open>An example engine\<close>

text \<open>
  One IntervalInt variable \<open>x\<close> in \<open>[1, 10]\<close> and three unary constraints on it, all
  pending in the agenda of the only propagator: the first narrows \<open>x\<close> to \<open>[2, 8]\<close>; the
  second asks for \<open>[2, 9]\<close>, then \<open>[20, 30]\<close>, which empties \<open>x\<close>, then \<open>[3, 4]\<close>; the third
  asks for \<open>[3, 4]\<close>. Then the engine after the first constraint has run, and the engine
  at the instant the second one empties \<open>x\<close>.
\<close>

definition x_var :: ConstrainedVariable where
  "x_var =
     \<lparr>v_key = 1, v_domain = IntervalIntDomain 1 10, v_baseDomain = IntervalIntDomain 1 10,
      v_internal = False, v_specifiable = True, v_name = ''x'', v_parent = 0, v_index = 0,
      v_constraints = [10, 11, 12]\<rparr>"

definition narrow_con :: Constraint where
  "narrow_con =
     \<lparr>c_key = 10, c_type = ''unary'', c_scope = [1],
      c_function = (\<lambda>ds. [(0, IntervalIntDomain 2 8)]), c_state = Active\<rparr>"

definition empty_con :: Constraint where
  "empty_con =
     \<lparr>c_key = 11, c_type = ''unary'', c_scope = [1],
      c_function = (\<lambda>ds. [(0, IntervalIntDomain 2 9), (0, IntervalIntDomain 20 30),
                           (0, IntervalIntDomain 3 4)]),
      c_state = Active\<rparr>"

definition late_con :: Constraint where
  "late_con =
     \<lparr>c_key = 12, c_type = ''unary'', c_scope = [1],
      c_function = (\<lambda>ds. [(0, IntervalIntDomain 3 4)]), c_state = Active\<rparr>"

definition example_engine :: ConstraintEngine where
  "example_engine =
     \<lparr>variables = [1 \<mapsto> x_var],
      constraints = [10 \<mapsto> narrow_con, 11 \<mapsto> empty_con, 12 \<mapsto> late_con],
      propagators = [\<lparr>p_key = 1, p_types = [''unary''], p_agenda = [10, 11, 12]\<rparr>],
      consistency = Unknown, propagating = False, deferred = 0, requested = False,
      nextKey = 13\<rparr>"

definition narrowed_engine :: ConstraintEngine where
  "narrowed_engine =
     example_engine
       \<lparr>variables := [1 \<mapsto> x_var\<lparr>v_domain := IntervalIntDomain 2 8\<rparr>],
        propagators := [\<lparr>p_key = 1, p_types = [''unary''], p_agenda = [11, 12]\<rparr>]\<rparr>"

definition emptied_engine :: ConstraintEngine where
  "emptied_engine =
     example_engine
       \<lparr>variables := [1 \<mapsto> x_var\<lparr>v_domain := IntervalIntDomain 20 8\<rparr>],
        propagators := [\<lparr>p_key = 1, p_types = [''unary''], p_agenda = [12, 10]\<rparr>]\<rparr>"

section \<open>Properties of marker matching\<close>










section \<open>Properties of the error facility\<close>

lemma EUROPA_ERROR_raised_by_mode: "raised_by_mode st e (EUROPA_ERROR st e)"
  by (simp add: raised_by_mode_def EUROPA_ERROR_def handleAssert_def)

lemma EUROPA_ERROR_not_Returns: "EUROPA_ERROR st e \<noteq> Returns v"
  by (simp add: EUROPA_ERROR_def handleAssert_def)

text \<open>
  C9, as amended. The copy constructor does not preserve the type: the copy's
  \<^verbatim>\<open>getType()\<close> is \<^verbatim>\<open>"Error"\<close> whatever the type of the original. The assignment operator
  does not touch the type either way: the target keeps the type it had before the
  assignment. Both copy condition, message, file and line, and \<^verbatim>\<open>operator==\<close> ignores
  the type.
\<close>

theorem Error_copy_assign_type:
  "getType (Error_copy e) = ''Error'' \<and>
   getCondition (Error_copy e) = getCondition e \<and> getMsg (Error_copy e) = getMsg e \<and>
   getFile (Error_copy e) = getFile e \<and> getLine (Error_copy e) = getLine e \<and>
   getType (Error_assign t e) = getType t \<and>
   getCondition (Error_assign t e) = getCondition e \<and> getMsg (Error_assign t e) = getMsg e \<and>
   getFile (Error_assign t e) = getFile e \<and> getLine (Error_assign t e) = getLine e \<and>
   Error_eq (setType a ty) b = Error_eq a b \<and> Error_eq a (setType b ty) = Error_eq a b \<and>
   Error_eq (Error_copy e) e \<and> Error_eq (Error_assign t e) e"
  by (simp add: getType_def getCondition_def getMsg_def getFile_def getLine_def
      Error_copy_def Error_assign_def Error_eq_def setType_def)

text \<open>
  C9 as stated fails for the assignment operator: a target whose type was set to
  \<^verbatim>\<open>"Custom"\<close> still has that type after an \<^verbatim>\<open>Error\<close> was assigned to it, not \<^verbatim>\<open>"Error"\<close>.
\<close>

theorem Error_assign_type_counterexample:
  "getType (Error_assign (setType (Error_m ''first'') ''Custom'')
              (Error_cmtfl ''x > 0'' ''second'' ''Other'' ''f.cc'' 7)) = ''Custom''
   \<and> ''Custom'' \<noteq> ''Error''"
  by (simp add: getType_def Error_assign_def setType_def Error_m_def Error_cmtfl_def)

text \<open>
  C3, as amended. A failed \<^verbatim>\<open>check_runtime_error\<close> or \<^verbatim>\<open>checkRuntimeError\<close> in any build,
  and a failed \<^verbatim>\<open>check_error\<close> or \<^verbatim>\<open>checkError\<close> in a build without \<^verbatim>\<open>EUROPA_FAST\<close>,
  does exactly one of two things, selected by \<^verbatim>\<open>Error::throwEnabled()\<close>: it throws the
  \<^verbatim>\<open>Error\<close> as an exception when throwing is enabled, and otherwise calls
  \<^verbatim>\<open>handleAssert\<close>, which aborts. \<^verbatim>\<open>doThrowExceptions\<close> enables throwing and
  \<^verbatim>\<open>doNotThrowExceptions\<close> disables it.
\<close>

theorem failed_check_raises:
  assumes "\<not> cond"
  shows "raised_by_mode st (Error_cfl ct f l) (check_runtime_error1 st cond ct f l) \<and>
         raised_by_mode st (Error_cmfl ct m f l) (check_runtime_error2 st cond ct m f l) \<and>
         raised_by_mode st (Error_cmtfl ct m ty f l) (check_runtime_error3 st cond ct m ty f l) \<and>
         raised_by_mode st (Error_cmfl ct m f l) (checkRuntimeError st cond ct m f l) \<and>
         raised_by_mode st (Error_cfl ct f l) (check_error1 False st cond ct f l) \<and>
         raised_by_mode st (Error_cmfl ct m f l) (check_error2 False st cond ct m f l) \<and>
         raised_by_mode st (Error_cmtfl ct m ty f l) (check_error3 False st cond ct m ty f l) \<and>
         raised_by_mode st (Error_cfl ct f l) (checkError1 False st cond ct f l) \<and>
         raised_by_mode st (Error_cmfl ct m f l) (checkError2 False st cond ct m f l) \<and>
         raised_by_mode st (Error_cmtfl ct m ty f l) (checkError3 False st cond ct m ty f l) \<and>
         throwEnabled (doThrowExceptions st) \<and> \<not> throwEnabled (doNotThrowExceptions st)"
proof -
  have "checkRuntimeError st cond ct m f l = EUROPA_ERROR st (Error_cmfl ct m f l)"
    using assms by (simp add: checkRuntimeError_def EUROPA_ERROR_def Let_def)
  then show ?thesis
    using assms
    by (simp add: EUROPA_ERROR_raised_by_mode check_runtime_error1_def
        check_runtime_error2_def check_runtime_error3_def check_error1_def check_error2_def
        check_error3_def checkError1_def checkError2_def checkError3_def throwEnabled_def
        doThrowExceptions_def doNotThrowExceptions_def)
qed

theorem failed_check_raises_witness:
  "\<not> False \<and>
   check_error1 False throw_mode False ''p != 0'' ''a.cc'' 3
     = Throws (Error_copy (Error_cfl ''p != 0'' ''a.cc'' 3)) \<and>
   check_runtime_error2 abort_mode False ''p != 0'' ''null'' ''a.cc'' 3
     = Aborts (Error_cmfl ''p != 0'' ''null'' ''a.cc'' 3)"
proof -
  have t: "throwEnabled throw_mode" and a: "\<not> throwEnabled abort_mode"
    by (simp_all add: throwEnabled_def throw_mode_def abort_mode_def)
  have "raised_by_mode throw_mode (Error_cfl ''p != 0'' ''a.cc'' 3)
          (check_error1 False throw_mode False ''p != 0'' ''a.cc'' 3)"
    using failed_check_raises [of False throw_mode "''p != 0''" "''a.cc''" 3] by simp
  moreover have "raised_by_mode abort_mode (Error_cmfl ''p != 0'' ''null'' ''a.cc'' 3)
          (check_runtime_error2 abort_mode False ''p != 0'' ''null'' ''a.cc'' 3)"
    using failed_check_raises [of False abort_mode "''p != 0''" "''a.cc''" 3 "''null''"]
    by simp
  ultimately show ?thesis
    using t a by (auto simp add: raised_by_mode_def)
qed

text \<open>
  C3 as stated fails in a build with \<^verbatim>\<open>EUROPA_FAST\<close>: a \<^verbatim>\<open>check_error\<close> or \<^verbatim>\<open>checkError\<close>
  whose condition is false returns normally there, in either mode; nothing is thrown and
  \<^verbatim>\<open>handleAssert\<close> is not called.
\<close>

theorem fast_check_error_counterexample:
  "check_error1 True throw_mode False ''p != 0'' ''a.cc'' 3 = Returns () \<and>
   checkError2 True abort_mode False ''p != 0'' ''null'' ''a.cc'' 3 = Returns ()"
  by (simp add: check_error1_def checkError2_def)

section \<open>Properties of the IntervalInt type factory\<close>

lemma dynamic_cast_None: "dynamic_cast_IntervalIntDomain d = None \<longleftrightarrow> kind d \<noteq> IntervalInt"
  by (cases d) simp_all

lemma dynamic_cast_Some: "kind d = IntervalInt \<Longrightarrow> dynamic_cast_IntervalIntDomain d = Some d"
  by (cases d) simp_all

lemma createVariable_mismatch_eq:
  assumes "kind baseDomain \<noteq> IntervalInt"
  shows "createVariable False NULL_text FILE_text st ce baseDomain internal canBeSpecified name parent index
           = (EUROPA_ERROR st (type_mismatch_Error NULL_text FILE_text), ce)"
proof -
  have n: "dynamic_cast_IntervalIntDomain baseDomain = None"
    using assms by (simp add: dynamic_cast_None)
  have "check_error2 False st False (''intervalIntDomain != '' @ NULL_text)
          ''tried to create an IntervalIntDomain variable with a different kind of base domain''
          FILE_text 31 = EUROPA_ERROR st (type_mismatch_Error NULL_text FILE_text)"
    by (simp add: check_error2_def type_mismatch_Error_def)
  then show ?thesis
    using n
    by (cases "EUROPA_ERROR st (type_mismatch_Error NULL_text FILE_text) :: unit outcome")
       (simp_all add: createVariable_def EUROPA_ERROR_not_Returns
         EUROPA_ERROR_def handleAssert_def split: if_splits)
qed

text \<open>
  C2, as amended. In a build without \<^verbatim>\<open>EUROPA_FAST\<close>, for every base domain whose kind is
  not IntervalInt, \<^verbatim>\<open>createVariable\<close> fails at the call with the type-mismatch error
  of line 31, raised the way the configured mode asks for (thrown, or reported by
  \<^verbatim>\<open>handleAssert\<close>, which aborts), and the engine is as it was: no variable has been
  constructed or registered. This holds whatever \<^verbatim>\<open>NULL\<close> expands to and whatever path
  \<^verbatim>\<open>__FILE__\<close> is.
\<close>

theorem createVariable_type_mismatch:
  assumes "kind baseDomain \<noteq> IntervalInt"
  shows "raised_by_mode st (type_mismatch_Error NULL_text FILE_text)
           (fst (createVariable False NULL_text FILE_text st ce baseDomain internal canBeSpecified name parent
                   index)) \<and>
         snd (createVariable False NULL_text FILE_text st ce baseDomain internal canBeSpecified name parent index)
           = ce"
  using assms by (simp add: createVariable_mismatch_eq EUROPA_ERROR_raised_by_mode)

theorem createVariable_type_mismatch_witness:
  "kind (IntervalDomain 0 1) \<noteq> IntervalInt \<and>
   createVariable False ''__null'' ''IntervalIntTypeFactory.cc'' throw_mode empty_engine
       (IntervalDomain 0 1) False True ''x'' 0 0
     = (Throws (Error_copy (type_mismatch_Error ''__null'' ''IntervalIntTypeFactory.cc'')),
        empty_engine) \<and>
   createVariable False ''0L'' ''component/IntervalIntTypeFactory.cc'' abort_mode empty_engine
       (IntervalDomain 0 1) False True ''x'' 0 0
     = (Aborts (type_mismatch_Error ''0L'' ''component/IntervalIntTypeFactory.cc''),
        empty_engine) \<and>
   getCondition (type_mismatch_Error ''__null'' ''IntervalIntTypeFactory.cc'')
     = ''intervalIntDomain != __null''"
proof -
  have k: "kind (IntervalDomain 0 1) \<noteq> IntervalInt" by simp
  have t: "throwEnabled throw_mode" and a: "\<not> throwEnabled abort_mode"
    by (simp_all add: throwEnabled_def throw_mode_def abort_mode_def)
  have c: "getCondition (type_mismatch_Error ''__null'' ''IntervalIntTypeFactory.cc'')
             = ''intervalIntDomain != __null''"
    by (simp add: getCondition_def type_mismatch_Error_def Error_cmfl_def)
  show ?thesis
    using k t a c
      createVariable_type_mismatch [OF k,
        where st = throw_mode and ce = empty_engine and NULL_text = "''__null''"
          and FILE_text = "''IntervalIntTypeFactory.cc''" and internal = False
          and canBeSpecified = True and name = "''x''" and parent = 0 and index = 0]
      createVariable_type_mismatch [OF k,
        where st = abort_mode and ce = empty_engine and NULL_text = "''0L''"
          and FILE_text = "''component/IntervalIntTypeFactory.cc''" and internal = False
          and canBeSpecified = True and name = "''x''" and parent = 0 and index = 0]
    by (auto simp add: raised_by_mode_def prod_eq_iff)
qed

text \<open>
  C2 as stated fails in a build with \<^verbatim>\<open>EUROPA_FAST\<close>: the check of line 31 is compiled
  out, no error is raised for an Enumerated base domain, and line 33 dereferences the
  null pointer.
\<close>

theorem createVariable_fast_counterexample:
  "kind (EnumeratedDomain {|1, 2|} False) \<noteq> IntervalInt \<and>
   createVariable True ''__null'' ''IntervalIntTypeFactory.cc'' throw_mode empty_engine
       (EnumeratedDomain {|1, 2|} False) False True ''e'' 0 0
     = (Undefined, empty_engine)"
  by (simp add: createVariable_def check_error2_def)



text \<open>
  C7. For every base domain whose kind is IntervalInt, in either build and either mode,
  \<^verbatim>\<open>createVariable\<close> returns the identity of a variable that was not registered
  before and is registered with the engine afterwards; the variable holds the base
  domain given as both its current and its base domain, carries the flags, name,
  parent and index given, and its identity is valid. The engine's key counter is
  assumed well formed.
\<close>

theorem createVariable_IntervalInt:
  assumes "kind baseDomain = IntervalInt" and "wf_keys ce"
  shows "\<exists>v ce'.
           createVariable EUROPA_FAST NULL_text FILE_text st ce baseDomain internal canBeSpecified name parent index
             = (Returns (v_key v), ce') \<and>
           variables ce (v_key v) = None \<and>
           variables ce' = (variables ce)(v_key v \<mapsto> v) \<and>
           v_domain v = baseDomain \<and> v_baseDomain v = baseDomain \<and>
           v_internal v = internal \<and> v_specifiable v = canBeSpecified \<and> v_name v = name \<and>
           v_parent v = parent \<and> v_index v = index \<and>
           isValid ce' (v_key v)"
proof -
  have d: "dynamic_cast_IntervalIntDomain baseDomain = Some baseDomain"
    using assms(1) by (rule dynamic_cast_Some)
  obtain v ce' where
    n: "new_Variable ce baseDomain internal canBeSpecified name parent index = (v, ce')"
    by (cases "new_Variable ce baseDomain internal canBeSpecified name parent index")
  have valid: "isValid ce' (v_key v)"
    using n assms(2) by (auto simp add: new_Variable_def Let_def isValid_def wf_keys_def)
  have "createVariable EUROPA_FAST NULL_text FILE_text st ce baseDomain internal canBeSpecified name parent index
          = (Returns (v_key v), ce')"
    using d n valid
    by (simp add: createVariable_def check_error2_def check_error1_def getId_def Let_def)
  moreover have "variables ce (v_key v) = None"
    using n assms(2) by (auto simp add: new_Variable_def Let_def wf_keys_def)
  moreover have "variables ce' = (variables ce)(v_key v \<mapsto> v)"
    using n by (auto simp add: new_Variable_def Let_def)
  moreover have "v_domain v = baseDomain \<and> v_baseDomain v = baseDomain \<and>
           v_internal v = internal \<and> v_specifiable v = canBeSpecified \<and> v_name v = name \<and>
           v_parent v = parent \<and> v_index v = index"
    using n by (auto simp add: new_Variable_def Let_def)
  ultimately show ?thesis using valid by blast
qed

theorem createVariable_IntervalInt_witness:
  "kind (IntervalIntDomain 1 10) = IntervalInt \<and> wf_keys empty_engine \<and>
   (\<exists>v ce'.
      createVariable False ''__null'' ''IntervalIntTypeFactory.cc'' throw_mode empty_engine
          (IntervalIntDomain 1 10) False True ''x'' 0 0
        = (Returns (v_key v), ce') \<and>
      variables ce' (v_key v) = Some v \<and>
      v_domain v = IntervalIntDomain 1 10 \<and> v_baseDomain v = IntervalIntDomain 1 10)"
proof -
  have k: "kind (IntervalIntDomain 1 10) = IntervalInt" by simp
  have w: "wf_keys empty_engine" by (simp add: wf_keys_def empty_engine_def)
  from createVariable_IntervalInt [OF k w,
      where EUROPA_FAST = False and NULL_text = "''__null''"
        and FILE_text = "''IntervalIntTypeFactory.cc''" and st = throw_mode and internal = False
        and canBeSpecified = True and name = "''x''" and parent = 0 and index = 0]
  obtain v ce' where
    "createVariable False ''__null'' ''IntervalIntTypeFactory.cc'' throw_mode empty_engine
         (IntervalIntDomain 1 10) False True ''x'' 0 0
       = (Returns (v_key v), ce')"
    "variables ce' = (variables empty_engine)(v_key v \<mapsto> v)"
    "v_domain v = IntervalIntDomain 1 10" "v_baseDomain v = IntervalIntDomain 1 10"
    by blast
  then have
    "createVariable False ''__null'' ''IntervalIntTypeFactory.cc'' throw_mode empty_engine
         (IntervalIntDomain 1 10) False True ''x'' 0 0
        = (Returns (v_key v), ce') \<and>
      variables ce' (v_key v) = Some v \<and>
      v_domain v = IntervalIntDomain 1 10 \<and> v_baseDomain v = IntervalIntDomain 1 10"
    by simp
  then show ?thesis using k w by blast
qed

subsection \<open>createValue\<close>

lemma digits_value_stops:
  "list_all isdigit ds \<Longrightarrow> \<not> isdigit c \<Longrightarrow>
   digits_value acc (ds @ c # rest) = digits_value acc ds"
  by (induction ds arbitrary: acc) simp_all

lemma digits_value_decimal:
  "list_all isdigit ds \<Longrightarrow> digits_value acc ds = acc * 10 ^ length ds + decimal_value ds"
proof (induction ds arbitrary: acc)
  case Nil
  then show ?case by (simp add: decimal_value_def)
next
  case (Cons d ds)
  then show ?case
    by (simp add: decimal_value_def horner_sum_append algebra_simps)
qed

lemma digits_value_prefix:
  assumes "list_all isdigit ds" and "rest = [] \<or> \<not> isdigit (hd rest)"
  shows "digits_value 0 (ds @ rest) = decimal_value ds"
proof (cases rest)
  case Nil
  then show ?thesis using digits_value_decimal [OF assms(1), of 0] by simp
next
  case (Cons c cs)
  then have "\<not> isdigit c" using assms(2) by simp
  then show ?thesis
    using digits_value_stops [OF assms(1), of c 0 cs] digits_value_decimal [OF assms(1), of 0]
      Cons by simp
qed

lemma c_str_no_null:
  "list_all (\<lambda>c. c \<noteq> CHR 0x00) xs \<Longrightarrow> c_str (xs @ rest) = xs @ c_str rest"
  by (induction xs) (auto simp add: c_str_def)

lemma c_str_head:
  "c_str rest = [] \<or> (rest \<noteq> [] \<and> c_str rest \<noteq> [] \<and> hd (c_str rest) = hd rest)"
  by (cases rest) (auto simp add: c_str_def)

lemma dropWhile_isspace_prefix:
  assumes "list_all isspace ws" and "xs = [] \<or> \<not> isspace (hd xs)"
  shows "dropWhile isspace (ws @ xs) = xs"
proof -
  have "dropWhile isspace xs = xs" using assms(2) by (cases xs) auto
  then show ?thesis using assms(1) by (induction ws) auto
qed

lemma isspace_not_null: "isspace c \<Longrightarrow> c \<noteq> CHR 0x00"
  by (auto simp add: isspace_def)

lemma isdigit_not_null: "isdigit c \<Longrightarrow> c \<noteq> CHR 0x00"
  by (auto simp add: isdigit_def)

lemma isdigit_not_space: "isdigit c \<Longrightarrow> \<not> isspace c"
  by (auto simp add: isdigit_def isspace_def)

lemma isdigit_not_sign: "isdigit c \<Longrightarrow> c \<noteq> CHR ''-'' \<and> c \<noteq> CHR ''+''"
  by (auto simp add: isdigit_def)

lemma sign_not_space: "\<not> isspace CHR ''-''" "\<not> isspace CHR ''+''"
  by (simp_all add: isspace_def)

lemma atoi_nil:
  assumes "dropWhile isspace s = []"
  shows "atoi s = Some 0"
  unfolding atoi_def assms by simp

lemma atoi_minus:
  assumes "dropWhile isspace s = CHR ''-'' # t"
  shows "atoi s = to_int (- digits_value 0 t)"
  unfolding atoi_def assms by simp

lemma atoi_plus:
  assumes "dropWhile isspace s = CHR ''+'' # t"
  shows "atoi s = to_int (digits_value 0 t)"
  unfolding atoi_def assms by simp

lemma atoi_unsigned:
  assumes "dropWhile isspace s = c # t" and "c \<noteq> CHR ''-''" and "c \<noteq> CHR ''+''"
  shows "atoi s = to_int (digits_value 0 (c # t))"
  unfolding atoi_def assms(1) using assms(2,3) by simp

lemma createValue_to_int:
  "atoi (c_str s) = to_int n \<Longrightarrow>
   createValue s = (if INT_MIN \<le> n \<and> n \<le> INT_MAX then Returns (real_of_int n) else Undefined)"
  by (simp add: createValue_def to_int_def)

lemma createValue_integer_prefix:
  assumes "integer_prefix ws sg ds rest"
  shows "createValue (ws @ sg @ ds @ rest) =
           (if INT_MIN \<le> signed_value sg ds \<and> signed_value sg ds \<le> INT_MAX
            then Returns (real_of_int (signed_value sg ds)) else Undefined)"
proof -
  from assms have ws: "list_all isspace ws" and sg: "sg = [] \<or> sg = ''-'' \<or> sg = ''+''"
    and ds: "list_all isdigit ds"
    by (simp_all add: integer_prefix_def)
  have "list_all (\<lambda>c. c \<noteq> CHR 0x00) ws"
    using ws isspace_not_null by (auto simp add: list_all_iff)
  moreover have "list_all (\<lambda>c. c \<noteq> CHR 0x00) sg" using sg by auto
  moreover have "list_all (\<lambda>c. c \<noteq> CHR 0x00) ds"
    using ds isdigit_not_null by (auto simp add: list_all_iff)
  ultimately have nn: "list_all (\<lambda>c. c \<noteq> CHR 0x00) (ws @ sg @ ds)" by simp
  define r where "r = c_str rest"
  have cs: "c_str (ws @ sg @ ds @ rest) = ws @ sg @ ds @ r"
    using c_str_no_null [OF nn, of rest] by (simp add: r_def)
  have rcases: "r = [] \<or> (\<exists>c cs cs'. rest = c # cs \<and> r = c # cs')"
    unfolding r_def by (cases rest) (auto simp add: c_str_def)
  have r1: "r = [] \<or> \<not> isdigit (hd r)"
    using assms rcases by (auto simp add: integer_prefix_def)
  have r2: "r = [] \<or> (\<not> isspace (hd r) \<and> hd r \<noteq> CHR ''-'' \<and> hd r \<noteq> CHR ''+'')"
    if "sg = []" "ds = []"
    using assms rcases that by (auto simp add: integer_prefix_def)
  have dv: "digits_value 0 (ds @ r) = decimal_value ds"
    by (rule digits_value_prefix [OF ds r1])
  have hd_ns: "sg @ ds @ r = [] \<or> \<not> isspace (hd (sg @ ds @ r))"
  proof (cases "sg = []")
    case False
    then show ?thesis using sg sign_not_space by auto
  next
    case True
    show ?thesis
    proof (cases ds)
      case Nil
      then show ?thesis using True r2 by auto
    next
      case (Cons d ds')
      then have "isdigit d" using ds by simp
      then show ?thesis using True Cons isdigit_not_space by simp
    qed
  qed
  have dw: "dropWhile isspace (ws @ sg @ ds @ r) = sg @ ds @ r"
    by (rule dropWhile_isspace_prefix [OF ws hd_ns])
  have "\<exists>n. atoi (ws @ sg @ ds @ r) = to_int n \<and>
          n = (if sg = ''-'' then - decimal_value ds else decimal_value ds)"
  proof -
    consider (minus) "sg = ''-''" | (plus) "sg = ''+''" | (none) "sg = []" using sg by blast
    then show ?thesis
    proof cases
      case minus
      have "dropWhile isspace (ws @ sg @ ds @ r) = CHR ''-'' # (ds @ r)"
        unfolding dw using minus by simp
      from atoi_minus [OF this] show ?thesis using dv minus by simp
    next
      case plus
      have "dropWhile isspace (ws @ sg @ ds @ r) = CHR ''+'' # (ds @ r)"
        unfolding dw using plus by simp
      from atoi_plus [OF this] show ?thesis using dv plus by simp
    next
      case none
      show ?thesis
      proof (cases "ds @ r")
        case Nil
        have "dropWhile isspace (ws @ sg @ ds @ r) = []"
          unfolding dw using none Nil by simp
        from atoi_nil [OF this] show ?thesis
          using none Nil
          by (simp add: to_int_def decimal_value_def INT_MIN_def INT_MAX_def)
      next
        case (Cons c t)
        have c: "c \<noteq> CHR ''-'' \<and> c \<noteq> CHR ''+''"
        proof (cases ds)
          case Nil
          then show ?thesis using Cons r2 [OF none Nil] by auto
        next
          case (Cons d ds')
          then have "isdigit d" "c = d" using ds \<open>ds @ r = c # t\<close> by simp_all
          then show ?thesis using isdigit_not_sign by simp
        qed
        have "dropWhile isspace (ws @ sg @ ds @ r) = c # t"
          unfolding dw using none Cons by simp
        from atoi_unsigned [OF this] c have "atoi (ws @ sg @ ds @ r) = to_int (digits_value 0 (c # t))"
          by simp
        then show ?thesis using dv none Cons by simp
      qed
    qed
  qed
  then obtain n where a: "atoi (c_str (ws @ sg @ ds @ rest)) = to_int n"
    and n: "n = (if sg = ''-'' then - decimal_value ds else decimal_value ds)"
    unfolding cs by blast
  show ?thesis
    unfolding createValue_to_int [OF a] signed_value_def n by simp
qed

lemma integer_prefix_exists:
  "\<exists>ws sg ds rest. s = ws @ sg @ ds @ rest \<and> integer_prefix ws sg ds rest"
proof -
  define ws where "ws = takeWhile isspace s"
  define r where "r = dropWhile isspace s"
  define sg where "sg = (case r of [] \<Rightarrow> [] | c # cs \<Rightarrow>
                           if c = CHR ''-'' \<or> c = CHR ''+'' then [c] else [])"
  define t where "t = drop (length sg) r"
  define ds where "ds = takeWhile isdigit t"
  define rest where "rest = dropWhile isdigit t"
  have s1: "s = ws @ r" by (simp add: ws_def r_def)
  have s2: "r = sg @ t" by (cases r) (auto simp add: sg_def t_def)
  have s3: "t = ds @ rest" by (simp add: ds_def rest_def)
  have w: "list_all isspace ws"
    unfolding ws_def list_all_iff using set_takeWhileD by fastforce
  have d: "list_all isdigit ds"
    unfolding ds_def list_all_iff using set_takeWhileD by fastforce
  have sgc: "sg = [] \<or> sg = ''-'' \<or> sg = ''+''"
    by (cases r) (auto simp add: sg_def)
  have rh: "r = [] \<or> \<not> isspace (hd r)"
    unfolding r_def using hd_dropWhile [of isspace s] by blast
  have resth: "rest = [] \<or> \<not> isdigit (hd rest)"
    unfolding rest_def using hd_dropWhile [of isdigit t] by blast
  have "integer_prefix ws sg ds rest"
  proof (cases rest)
    case Nil
    then show ?thesis using w sgc d by (simp add: integer_prefix_def)
  next
    case (Cons c cs)
    then have nd: "\<not> isdigit c" using resth by simp
    have "\<not> isspace c \<and> c \<noteq> CHR ''-'' \<and> c \<noteq> CHR ''+''" if a: "sg = []" "ds = []"
    proof -
      have e: "r = c # cs" using s2 s3 a Cons by simp
      then have "\<not> isspace c" using rh by simp
      moreover have "c \<noteq> CHR ''-'' \<and> c \<noteq> CHR ''+''"
        using a(1) e by (auto simp add: sg_def split: if_splits)
      ultimately show ?thesis by simp
    qed
    then show ?thesis using w sgc d nd Cons by (simp add: integer_prefix_def)
  qed
  moreover have "s = ws @ sg @ ds @ rest" using s1 s2 s3 by simp
  ultimately show ?thesis by blast
qed

text \<open>
  C1, as amended. \<^verbatim>\<open>createValue\<close> reports no parse error for any literal string. Every
  string splits into white space, an optional sign, decimal digits and a rest that does
  not continue them, and for every such split \<^verbatim>\<open>createValue\<close> returns the signed decimal
  value of the digits (0 when there are none), whatever the rest is, when that value
  fits an \<^verbatim>\<open>int\<close>; its behaviour is undefined exactly when the value does not fit.
\<close>

theorem createValue_reports_no_error:
  "raised (createValue s) = None \<and>
   (\<exists>ws sg ds rest. s = ws @ sg @ ds @ rest \<and> integer_prefix ws sg ds rest) \<and>
   (integer_prefix ws sg ds rest \<longrightarrow>
      createValue (ws @ sg @ ds @ rest) =
        (if INT_MIN \<le> signed_value sg ds \<and> signed_value sg ds \<le> INT_MAX
         then Returns (real_of_int (signed_value sg ds)) else Undefined))"
proof -
  obtain ws' sg' ds' rest' where
    p: "s = ws' @ sg' @ ds' @ rest'" "integer_prefix ws' sg' ds' rest'"
    using integer_prefix_exists [of s] by blast
  have "raised (createValue s) = None"
    unfolding p(1) createValue_integer_prefix [OF p(2)] by simp
  then show ?thesis
    using integer_prefix_exists [of s] createValue_integer_prefix [of ws sg ds rest]
    by blast
qed

theorem createValue_reports_no_error_witness:
  "integer_prefix ''  '' ''-'' ''42'' ''nd'' \<and> createValue ''  -42nd'' = Returns (- 42) \<and>
   integer_prefix [] [] [] ''x1'' \<and> createValue ''x1'' = Returns 0 \<and>
   integer_prefix [] [] ''99999999999'' [] \<and> createValue ''99999999999'' = Undefined \<and>
   raised (createValue ''x1'') = None"
proof -
  have a: "integer_prefix ''  '' ''-'' ''42'' ''nd''"
    by (simp add: integer_prefix_def isspace_def isdigit_def)
  have b: "integer_prefix [] [] [] ''x1''"
    by (simp add: integer_prefix_def isspace_def isdigit_def)
  have c: "integer_prefix [] [] ''99999999999'' []"
    by (simp add: integer_prefix_def isdigit_def)
  have va: "signed_value ''-'' ''42'' = - 42"
    by (simp add: signed_value_def decimal_value_def)
  have vb: "signed_value [] [] = 0"
    by (simp add: signed_value_def decimal_value_def)
  have vc: "signed_value [] ''99999999999'' = 99999999999"
    by (simp add: signed_value_def decimal_value_def)
  have "createValue ''  -42nd'' = Returns (- 42)"
    using a va createValue_reports_no_error [of "''x1''" "''  ''" "''-''" "''42''" "''nd''"]
    by (simp add: INT_MIN_def INT_MAX_def)
  moreover have "createValue ''x1'' = Returns 0 \<and> raised (createValue ''x1'') = None"
    using b vb createValue_reports_no_error [of "''x1''" "[]" "[]" "[]" "''x1''"]
    by (simp add: INT_MIN_def INT_MAX_def)
  moreover have "createValue ''99999999999'' = Undefined"
    using c vc createValue_reports_no_error [of "''x1''" "[]" "[]" "''99999999999''" "[]"]
    by (simp add: INT_MIN_def INT_MAX_def)
  ultimately show ?thesis using a b c by blast
qed


text \<open>
  C1 as stated fails: the malformed literals \<^verbatim>\<open>abc\<close> and \<^verbatim>\<open>12abc\<close> raise no error;
  \<^verbatim>\<open>createValue\<close> returns 0 for the first and 12 for the second.
\<close>

theorem createValue_malformed_counterexample:
  "\<not> well_formed_integer_literal ''abc'' \<and> createValue ''abc'' = Returns 0 \<and>
   \<not> well_formed_integer_literal ''12abc'' \<and> createValue ''12abc'' = Returns 12"
  by (simp add: well_formed_integer_literal_def createValue_def atoi_def c_str_def
      isspace_def isdigit_def to_int_def INT_MIN_def INT_MAX_def)

section \<open>Properties of the domain algebra\<close>

lemma intersect_members_self: "intersect_members D D = Some D"
  by (cases D) simp_all

lemma intersect_members_subset: "isSubsetOf D base \<Longrightarrow> intersect_members D base = Some D"
  by (cases D; cases base) (auto simp add: max_def min_def)

text \<open>
  C6. For every domain \<open>D\<close>, \<open>D.intersect(D)\<close> leaves \<open>D\<close> unchanged, and for every
  domain \<open>D\<close> and base domain \<open>base\<close> with \<open>D\<close> a subset of \<open>base\<close>, \<open>D.intersect(base)\<close>
  leaves \<open>D\<close> unchanged: the domain after the call is \<open>D\<close> and no event is emitted.
\<close>

theorem intersect_idempotent_identity:
  "intersect D D = Inr (D, None) \<and>
   (isSubsetOf D base \<longrightarrow> intersect D base = Inr (D, None))"
  by (simp add: intersect_def intersect_members_self intersect_members_subset
      restriction_event_def)

theorem intersect_idempotent_identity_witness:
  "isSubsetOf (IntervalIntDomain 2 5) (IntervalDomain (1/2) (11/2)) \<and>
   intersect (IntervalIntDomain 2 5) (IntervalDomain (1/2) (11/2))
     = Inr (IntervalIntDomain 2 5, None) \<and>
   intersect (EnumeratedDomain {|1, 2|} False) (EnumeratedDomain {|1, 2|} False)
     = Inr (EnumeratedDomain {|1, 2|} False, None)"
  using intersect_idempotent_identity [of "IntervalIntDomain 2 5" "IntervalDomain (1/2) (11/2)"]
    intersect_idempotent_identity [of "EnumeratedDomain {|1, 2|} False"]
  by simp

section \<open>Properties of the propagation engine\<close>

lemma apply_restrictions_stops:
  assumes "apply_restrictions ce con pre = Inr (ce1, False)"
    and "pos < length (c_scope con)"
    and "restrict_variable ce1 (Some (c_key con)) (c_scope con ! pos) other
           = Inr (ce2, Some EMPTIED)"
  shows "apply_restrictions ce con (pre @ (pos, other) # post) = Inr (ce2, True)"
  using assms
proof (induction pre arbitrary: ce)
  case Nil
  then show ?case by simp
next
  case (Cons r pre)
  obtain p d where r: "r = (p, d)" by (cases r)
  show ?case
    using Cons.prems Cons.IH unfolding r
    by (auto split: if_splits sum.splits prod.splits)
qed

lemma propagate_loop_iterations:
  "iterations k ce executed = Some (ce', executed') \<Longrightarrow>
   propagate_loop (k + n) ce executed = propagate_loop n ce' executed'"
proof (induction k arbitrary: ce executed)
  case 0
  then show ?case by simp
next
  case (Suc k)
  then show ?case by (cases "loop_body ce executed") simp_all
qed

text \<open>
  C4. Take a propagation run that has come, after \<open>k\<close> iterations, to the engine \<open>ce_k\<close>
  with the constraints \<open>executed_k\<close> executed, and let the constraint \<open>c\<close> executed next
  produce an \<^verbatim>\<open>EMPTIED\<close> event: its restriction of the scope member at \<open>pos\<close> empties that
  domain and leaves the engine \<open>ce2\<close>. Then the run ends there: its result is \<open>ce2\<close>, with
  every domain and every agenda as at that instant, the consistency state set to
  Inconsistent, and \<open>c\<close> is the last constraint executed; the restrictions \<open>post\<close> that \<open>c\<close>
  still called for and the constraints still pending are not run.
\<close>

theorem emptied_stops_propagation:
  assumes "iterations k ce executed = Some (ce_k, executed_k)"
    and "consistency ce_k \<noteq> Inconsistent"
    and "pop_next (propagators ce_k) = Some (c, ps)"
    and "constraints ce_k c = Some con" and "c_state con = Active"
    and "scope_domains (ce_k\<lparr>propagators := ps\<rparr>) (c_scope con) = Some ds"
    and "c_function con ds = pre @ (pos, other) # post"
    and "apply_restrictions (ce_k\<lparr>propagators := ps\<rparr>) con pre = Inr (ce1, False)"
    and "pos < length (c_scope con)"
    and "restrict_variable ce1 (Some (c_key con)) (c_scope con ! pos) other
           = Inr (ce2, Some EMPTIED)"
  shows "propagate_loop (k + Suc fuel) ce executed
           = Some (Inr (ce2\<lparr>consistency := Inconsistent\<rparr>, executed_k @ [c]))"
proof -
  have "execute (ce_k\<lparr>propagators := ps\<rparr>) con = Inr (ce2, True)"
    using assms(6,7) apply_restrictions_stops [OF assms(8,9,10)]
    by (simp add: execute_def)
  then have "loop_body ce_k executed_k
               = Stop (Inr (ce2\<lparr>consistency := Inconsistent\<rparr>, executed_k @ [c]))"
    using assms(2-5) by (simp add: loop_body_def)
  then show ?thesis
    using propagate_loop_iterations [OF assms(1), of "Suc fuel"] by simp
qed

theorem emptied_stops_propagation_witness:
  "propagate_loop 3 example_engine []
     = Some (Inr (emptied_engine\<lparr>consistency := Inconsistent\<rparr>, [10, 11])) \<and>
   map p_agenda (propagators emptied_engine) = [[12, 10]] \<and>
   map_option v_domain (variables emptied_engine 1) = Some (IntervalIntDomain 20 8)"
proof -
  let ?ps = "[\<lparr>p_key = 1, p_types = [''unary''], p_agenda = [12]\<rparr>]"
  note example_defs = example_engine_def narrowed_engine_def emptied_engine_def x_var_def
    narrow_con_def empty_con_def late_con_def loop_body_def execute_def
    restrict_variable_def intersect_def restriction_event_def notify_def activate_def
    enqueue_def
  have h1: "iterations 1 example_engine [] = Some (narrowed_engine, [10])"
    by (simp add: example_defs)
  have h2: "consistency narrowed_engine \<noteq> Inconsistent"
    by (simp add: example_defs)
  have h3: "pop_next (propagators narrowed_engine) = Some (11, ?ps)"
    by (simp add: example_defs)
  have h4: "constraints narrowed_engine 11 = Some empty_con"
    by (simp add: example_defs)
  have h5: "c_state empty_con = Active"
    by (simp add: example_defs)
  have h6: "scope_domains (narrowed_engine\<lparr>propagators := ?ps\<rparr>) (c_scope empty_con)
              = Some [IntervalIntDomain 2 8]"
    by (simp add: example_defs)
  have h7: "c_function empty_con [IntervalIntDomain 2 8]
              = [(0, IntervalIntDomain 2 9)] @ (0, IntervalIntDomain 20 30)
                  # [(0, IntervalIntDomain 3 4)]"
    by (simp add: example_defs)
  have h8: "apply_restrictions (narrowed_engine\<lparr>propagators := ?ps\<rparr>) empty_con
              [(0, IntervalIntDomain 2 9)]
              = Inr (narrowed_engine\<lparr>propagators := ?ps\<rparr>, False)"
    by (simp add: example_defs)
  have h9: "0 < length (c_scope empty_con)"
    by (simp add: example_defs)
  have h10: "restrict_variable (narrowed_engine\<lparr>propagators := ?ps\<rparr>)
               (Some (c_key empty_con)) (c_scope empty_con ! 0) (IntervalIntDomain 20 30)
               = Inr (emptied_engine, Some EMPTIED)"
    by (simp add: example_defs)
  have "propagate_loop (1 + Suc 1) example_engine []
          = Some (Inr (emptied_engine\<lparr>consistency := Inconsistent\<rparr>, [10] @ [11]))"
    by (rule emptied_stops_propagation [OF h1 h2 h3 h4 h5 h6 h7 h8 h9 h10])
  then have run: "propagate_loop 3 example_engine []
          = Some (Inr (emptied_engine\<lparr>consistency := Inconsistent\<rparr>, [10, 11]))"
    by (simp add: numeral_3_eq_3)
  have "map p_agenda (propagators emptied_engine) = [[12, 10]]"
    by (simp add: emptied_engine_def)
  moreover have "map_option v_domain (variables emptied_engine 1)
                   = Some (IntervalIntDomain 20 8)"
    by (simp add: emptied_engine_def)
  ultimately show ?thesis using run by blast
qed

subsection \<open>Determinism\<close>

lemma same_result_simps [simp]:
  "same_result (Inl e1) (Inl e2) \<longleftrightarrow> e1 = e2"
  "same_result (Inr (ce1, x1)) (Inr (ce2, x2)) \<longleftrightarrow> structurally_identical ce1 ce2 \<and> x1 = x2"
  "\<not> same_result (Inl e1) (Inr p2)"
  "\<not> same_result (Inr p1) (Inl e2)"
  by (simp_all add: same_result_def)

lemma si_fields:
  assumes "structurally_identical ce1 ce2"
  shows "constraints ce1 = constraints ce2" "propagators ce1 = propagators ce2"
    "consistency ce1 = consistency ce2" "propagating ce1 = propagating ce2"
    "deferred ce1 = deferred ce2"
  using assms by (simp_all add: structurally_identical_def)

lemma si_variables:
  assumes "structurally_identical ce1 ce2"
  shows "(variables ce1 v = None \<and> variables ce2 v = None) \<or>
         (\<exists>a b. variables ce1 v = Some a \<and> variables ce2 v = Some b \<and> same_structure a b)"
proof -
  have "rel_option same_structure (variables ce1 v) (variables ce2 v)"
    using assms by (simp add: structurally_identical_def)
  then show ?thesis
    by (cases "variables ce1 v"; cases "variables ce2 v") simp_all
qed

lemma si_activate:
  "structurally_identical ce1 ce2 \<Longrightarrow> structurally_identical (activate ce1 c) (activate ce2 c)"
  by (auto simp add: structurally_identical_def activate_def split: option.splits)

lemma si_fold_activate:
  "structurally_identical ce1 ce2 \<Longrightarrow>
   structurally_identical (fold (\<lambda>c e. activate e c) cs ce1) (fold (\<lambda>c e. activate e c) cs ce2)"
  by (induction cs arbitrary: ce1 ce2) (simp_all add: si_activate)

lemma si_notify:
  "structurally_identical ce1 ce2 \<Longrightarrow> same_structure a b \<Longrightarrow>
   structurally_identical (notify ce1 ex a) (notify ce2 ex b)"
  by (simp add: notify_def same_structure_def si_fold_activate)

lemma si_update:
  "structurally_identical ce1 ce2 \<Longrightarrow> same_structure a b \<Longrightarrow>
   structurally_identical (ce1\<lparr>variables := (variables ce1)(v \<mapsto> a)\<rparr>)
     (ce2\<lparr>variables := (variables ce2)(v \<mapsto> b)\<rparr>)"
  by (simp add: structurally_identical_def)

lemma si_restrict_variable:
  assumes "structurally_identical ce1 ce2"
  shows "same_result (restrict_variable ce1 ex v other) (restrict_variable ce2 ex v other)"
proof -
  from si_variables [OF assms, of v] show ?thesis
  proof
    assume "variables ce1 v = None \<and> variables ce2 v = None"
    then show ?thesis by (simp add: restrict_variable_def)
  next
    assume "\<exists>a b. variables ce1 v = Some a \<and> variables ce2 v = Some b \<and> same_structure a b"
    then obtain a b where ab: "variables ce1 v = Some a" "variables ce2 v = Some b"
      "same_structure a b" by blast
    then have d: "v_domain a = v_domain b" by (simp add: same_structure_def)
    show ?thesis
    proof (cases "intersect (v_domain b) other")
      case (Inl err)
      then show ?thesis using ab d by (simp add: restrict_variable_def)
    next
      case (Inr r)
      obtain d' ev where r: "r = (d', ev)" by (cases r)
      show ?thesis
      proof (cases ev)
        case None
        then show ?thesis using ab d Inr r assms by (simp add: restrict_variable_def)
      next
        case (Some e)
        have s: "same_structure (a\<lparr>v_domain := d'\<rparr>) (b\<lparr>v_domain := d'\<rparr>)"
          using ab(3) by (simp add: same_structure_def)
        have "structurally_identical
                (notify (ce1\<lparr>variables := (variables ce1)(v \<mapsto> a\<lparr>v_domain := d'\<rparr>)\<rparr>) ex
                   (a\<lparr>v_domain := d'\<rparr>))
                (notify (ce2\<lparr>variables := (variables ce2)(v \<mapsto> b\<lparr>v_domain := d'\<rparr>)\<rparr>) ex
                   (b\<lparr>v_domain := d'\<rparr>))"
          by (rule si_notify [OF si_update [OF assms s] s])
        then show ?thesis using ab d Inr r Some by (simp add: restrict_variable_def Let_def)
      qed
    qed
  qed
qed

lemma si_scope_domains:
  assumes "structurally_identical ce1 ce2"
  shows "scope_domains ce1 vs = scope_domains ce2 vs"
proof (induction vs)
  case Nil
  then show ?case by simp
next
  case (Cons v vs)
  from si_variables [OF assms, of v] Cons show ?case
    by (auto simp add: same_structure_def)
qed

lemma si_apply_restrictions:
  "structurally_identical ce1 ce2 \<Longrightarrow>
   same_result (apply_restrictions ce1 con rs) (apply_restrictions ce2 con rs)"
proof (induction rs arbitrary: ce1 ce2)
  case Nil
  then show ?case by simp
next
  case (Cons r rs)
  obtain pos other where r: "r = (pos, other)" by (cases r)
  let ?r1 = "restrict_variable ce1 (Some (c_key con)) (c_scope con ! pos) other"
  let ?r2 = "restrict_variable ce2 (Some (c_key con)) (c_scope con ! pos) other"
  have sr: "same_result ?r1 ?r2" by (rule si_restrict_variable [OF Cons.prems])
  show ?case
  proof (cases "length (c_scope con) \<le> pos")
    case True
    then show ?thesis by (simp add: r)
  next
    case False
    show ?thesis
    proof (cases ?r1)
      case (Inl e1)
      then show ?thesis using sr False by (cases ?r2) (simp_all add: r)
    next
      case (Inr p1)
      obtain ce1' ev1 where p1: "p1 = (ce1', ev1)" by (cases p1)
      from sr Inr p1 obtain ce2' where
        r2: "?r2 = Inr (ce2', ev1)" and si': "structurally_identical ce1' ce2'"
        by (cases ?r2) auto
      show ?thesis
        using False Inr p1 r2 si' Cons.IH [OF si'] by (simp add: r)
    qed
  qed
qed

lemma si_execute:
  "structurally_identical ce1 ce2 \<Longrightarrow> same_result (execute ce1 con) (execute ce2 con)"
  by (simp add: execute_def si_scope_domains [of ce1 ce2] si_apply_restrictions
      split: option.splits)

lemma si_pop:
  "structurally_identical ce1 ce2 \<Longrightarrow>
   structurally_identical (ce1\<lparr>propagators := ps\<rparr>) (ce2\<lparr>propagators := ps\<rparr>)"
  by (simp add: structurally_identical_def)

lemma si_consistency:
  "structurally_identical ce1 ce2 \<Longrightarrow>
   structurally_identical (ce1\<lparr>consistency := s\<rparr>) (ce2\<lparr>consistency := s\<rparr>)"
  by (simp add: structurally_identical_def)

lemma si_loop_body:
  assumes "structurally_identical ce1 ce2"
  shows "same_step (loop_body ce1 executed) (loop_body ce2 executed)"
proof -
  note f = si_fields [OF assms]
  show ?thesis
  proof (cases "consistency ce1 = Inconsistent")
    case True
    then show ?thesis using f assms by (simp add: loop_body_def)
  next
    case ni: False
    show ?thesis
    proof (cases "pop_next (propagators ce1)")
      case None
      then show ?thesis using f ni si_consistency [OF assms] by (simp add: loop_body_def)
    next
      case (Some p)
      obtain c ps where p: "p = (c, ps)" by (cases p)
      note popped = si_pop [OF assms, of ps]
      show ?thesis
      proof (cases "constraints ce1 c")
        case None
        then show ?thesis using f ni Some p popped by (simp add: loop_body_def)
      next
        case con: (Some con)
        show ?thesis
        proof (cases "c_state con = Active")
          case False
          then show ?thesis using f ni Some p popped con by (simp add: loop_body_def)
        next
          case True
          let ?e1 = "execute (ce1\<lparr>propagators := ps\<rparr>) con"
          let ?e2 = "execute (ce2\<lparr>propagators := ps\<rparr>) con"
          have se: "same_result ?e1 ?e2" by (rule si_execute [OF popped])
          show ?thesis
          proof (cases ?e1)
            case (Inl e1)
            then have "?e2 = Inl e1" using se by (cases ?e2) simp_all
            then show ?thesis using f ni Some p con True Inl by (simp add: loop_body_def)
          next
            case (Inr q1)
            obtain ce1' em where q1: "q1 = (ce1', em)" by (cases q1)
            from se Inr q1 obtain ce2' where
              e2: "?e2 = Inr (ce2', em)" and si': "structurally_identical ce1' ce2'"
              by (cases ?e2) auto
            show ?thesis
              using f ni Some p con True Inr q1 e2 si' si_consistency [OF si']
              by (simp add: loop_body_def)
          qed
        qed
      qed
    qed
  qed
qed

lemma si_propagate_loop:
  "structurally_identical ce1 ce2 \<Longrightarrow>
   same_run (propagate_loop fuel ce1 executed) (propagate_loop fuel ce2 executed)"
proof (induction fuel arbitrary: ce1 ce2 executed)
  case 0
  then show ?case by (simp add: same_run_def)
next
  case (Suc fuel)
  from si_loop_body [OF Suc.prems, of executed] show ?case
  proof (cases "loop_body ce1 executed"; cases "loop_body ce2 executed")
    fix r1 r2
    assume "loop_body ce1 executed = Stop r1" "loop_body ce2 executed = Stop r2"
      and "same_step (loop_body ce1 executed) (loop_body ce2 executed)"
    then show ?thesis by (simp add: same_run_def)
  next
    fix a1 x1 a2 x2
    assume "loop_body ce1 executed = Continue a1 x1" "loop_body ce2 executed = Continue a2 x2"
      and "same_step (loop_body ce1 executed) (loop_body ce2 executed)"
    then show ?thesis using Suc.IH [of a1 a2 x1] by simp
  qed simp_all
qed

lemma si_propagate:
  assumes "structurally_identical ce1 ce2"
  shows "same_run (propagate fuel ce1) (propagate fuel ce2)"
proof -
  note f = si_fields [OF assms]
  have r: "structurally_identical (ce1\<lparr>requested := True\<rparr>) (ce2\<lparr>requested := True\<rparr>)"
    using assms by (simp add: structurally_identical_def)
  have p: "structurally_identical (ce1\<lparr>propagating := True\<rparr>) (ce2\<lparr>propagating := True\<rparr>)"
    using assms by (simp add: structurally_identical_def)
  have q: "\<And>a b. structurally_identical a b \<Longrightarrow>
      structurally_identical (a\<lparr>propagating := False\<rparr>) (b\<lparr>propagating := False\<rparr>)"
    by (simp add: structurally_identical_def)
  let ?l1 = "propagate_loop fuel (ce1\<lparr>propagating := True\<rparr>) []"
  let ?l2 = "propagate_loop fuel (ce2\<lparr>propagating := True\<rparr>) []"
  have l: "same_run ?l1 ?l2" by (rule si_propagate_loop [OF p])
  show ?thesis
  proof (cases "propagating ce1 \<or> deferred ce1 \<noteq> 0")
    case True
    then show ?thesis using f r by (auto simp add: propagate_def same_run_def)
  next
    case False
    then show ?thesis
      using f l q
      by (cases ?l1; cases ?l2)
         (auto simp add: propagate_def same_run_def same_result_def rel_sum.simps
           split: sum.splits)
  qed
qed

lemma si_restrict:
  assumes "structurally_identical ce1 ce2"
  shows "same_run (restrict fuel ce1 v other) (restrict fuel ce2 v other)"
proof -
  from si_variables [OF assms, of v] show ?thesis
  proof
    assume "variables ce1 v = None \<and> variables ce2 v = None"
    then show ?thesis by (simp add: restrict_def same_run_def)
  next
    assume "\<exists>a b. variables ce1 v = Some a \<and> variables ce2 v = Some b \<and> same_structure a b"
    then obtain a b where ab: "variables ce1 v = Some a" "variables ce2 v = Some b"
      "same_structure a b" by blast
    then have d: "v_baseDomain a = v_baseDomain b" by (simp add: same_structure_def)
    show ?thesis
    proof (cases "intersect (v_baseDomain b) other")
      case (Inl err)
      then show ?thesis using ab d by (simp add: restrict_def same_run_def)
    next
      case (Inr r)
      obtain bd ev where r: "r = (bd, ev)" by (cases r)
      show ?thesis
      proof (cases "isEmpty bd")
        case True
        then show ?thesis using ab d Inr r by (simp add: restrict_def same_run_def)
      next
        case False
        let ?r1 = "restrict_variable ce1 None v other"
        let ?r2 = "restrict_variable ce2 None v other"
        have sr: "same_result ?r1 ?r2" by (rule si_restrict_variable [OF assms])
        show ?thesis
        proof (cases ?r1)
          case (Inl e1)
          then have "?r2 = Inl e1" using sr by (cases ?r2) simp_all
          then show ?thesis using ab d Inr r False Inl by (simp add: restrict_def same_run_def)
        next
          case r1: (Inr q1)
          obtain ce1' ev1 where q1: "q1 = (ce1', ev1)" by (cases q1)
          from sr r1 q1 obtain ce2' where
            r2: "?r2 = Inr (ce2', ev1)" and si': "structurally_identical ce1' ce2'"
            by (cases ?r2) auto
          have "same_run
                  (propagate fuel (if ev1 = Some EMPTIED
                                   then ce1'\<lparr>consistency := Inconsistent\<rparr> else ce1'))
                  (propagate fuel (if ev1 = Some EMPTIED
                                   then ce2'\<lparr>consistency := Inconsistent\<rparr> else ce2'))"
            using si_propagate [OF si'] si_propagate [OF si_consistency [OF si']] by simp
          then show ?thesis using ab d Inr r False r1 q1 r2 by (simp add: restrict_def)
        qed
      qed
    qed
  qed
qed

lemma si_replay:
  "structurally_identical ce1 ce2 \<Longrightarrow>
   same_run (replay fuel ce1 rs executed) (replay fuel ce2 rs executed)"
proof (induction rs arbitrary: ce1 ce2 executed)
  case Nil
  then show ?case by (simp add: same_run_def)
next
  case (Cons r rs)
  obtain v other where r: "r = (v, other)" by (cases r)
  let ?r1 = "restrict fuel ce1 v other" and ?r2 = "restrict fuel ce2 v other"
  have sr: "same_run ?r1 ?r2" by (rule si_restrict [OF Cons.prems])
  show ?case
  proof (cases ?r1)
    case None
    then have "?r2 = None" using sr by (cases ?r2) (simp_all add: same_run_def)
    then show ?thesis using None by (simp add: r same_run_def)
  next
    case (Some s1)
    then obtain s2 where s2: "?r2 = Some s2" and ss: "same_result s1 s2"
      using sr by (cases ?r2) (simp_all add: same_run_def)
    show ?thesis
    proof (cases s1)
      case (Inl e1)
      then have "s2 = Inl e1" using ss by (cases s2) simp_all
      then show ?thesis using Some s2 Inl by (simp add: r same_run_def)
    next
      case (Inr q1)
      obtain ce1' ex where q1: "q1 = (ce1', ex)" by (cases q1)
      from ss Inr q1 obtain ce2' where
        q2: "s2 = Inr (ce2', ex)" and si': "structurally_identical ce1' ce2'"
        by (cases s2) auto
      show ?thesis using Some s2 Inr q1 q2 Cons.IH [OF si'] by (simp add: r)
    qed
  qed
qed

lemma si_domains:
  assumes "structurally_identical ce1 ce2"
  shows "map_option v_domain (variables ce1 v) = map_option v_domain (variables ce2 v)"
  using si_variables [OF assms, of v] by (auto simp add: same_structure_def)

lemma same_run_outcome:
  assumes "same_run r1 r2"
  shows "same_outcome r1 r2"
proof (cases r1)
  case None
  then show ?thesis using assms by (cases r2) (simp_all add: same_run_def same_outcome_def)
next
  case (Some s1)
  then obtain s2 where s2: "r2 = Some s2" and ss: "same_result s1 s2"
    using assms by (cases r2) (simp_all add: same_run_def)
  show ?thesis
  proof (cases s1)
    case (Inl e1)
    then have "s2 = Inl e1" using ss by (cases s2) simp_all
    then show ?thesis using Some s2 Inl by (simp add: same_outcome_def)
  next
    case (Inr q1)
    obtain ce1 ex where q1: "q1 = (ce1, ex)" by (cases q1)
    from ss Inr q1 obtain ce2 where
      q2: "s2 = Inr (ce2, ex)" and si: "structurally_identical ce1 ce2"
      by (cases s2) auto
    show ?thesis
      using Some s2 Inr q1 q2 si si_domains [OF si] by (simp add: same_outcome_def)
  qed
qed

lemma pop_next_order:
  "pop_next ps = Some (c, ps') \<longleftrightarrow>
   (\<exists>before p rest after.
      ps = before @ p # after \<and> list_all (\<lambda>q. p_agenda q = []) before \<and>
      p_agenda p = c # rest \<and> ps' = before @ p\<lparr>p_agenda := rest\<rparr> # after)"
proof (induction ps arbitrary: ps')
  case Nil
  then show ?case by simp
next
  case (Cons q qs)
  show ?case
  proof (cases "p_agenda q")
    case Nil
    show ?thesis
    proof
      assume "pop_next (q # qs) = Some (c, ps')"
      then obtain qs' where "pop_next qs = Some (c, qs')" and ps': "ps' = q # qs'"
        using Nil by auto
      then obtain before p rest after where
        "qs = before @ p # after" "list_all (\<lambda>q. p_agenda q = []) before"
        "p_agenda p = c # rest" "qs' = before @ p\<lparr>p_agenda := rest\<rparr> # after"
        using Cons.IH [of qs'] by blast
      then have "q # qs = (q # before) @ p # after \<and>
          list_all (\<lambda>q. p_agenda q = []) (q # before) \<and>
          p_agenda p = c # rest \<and> ps' = (q # before) @ p\<lparr>p_agenda := rest\<rparr> # after"
        using Nil ps' by simp
      then show "\<exists>before p rest after.
          q # qs = before @ p # after \<and> list_all (\<lambda>q. p_agenda q = []) before \<and>
          p_agenda p = c # rest \<and> ps' = before @ p\<lparr>p_agenda := rest\<rparr> # after"
        by blast
    next
      assume "\<exists>before p rest after.
          q # qs = before @ p # after \<and> list_all (\<lambda>q. p_agenda q = []) before \<and>
          p_agenda p = c # rest \<and> ps' = before @ p\<lparr>p_agenda := rest\<rparr> # after"
      then obtain before p rest after where
        h: "q # qs = before @ p # after" "list_all (\<lambda>q. p_agenda q = []) before"
        "p_agenda p = c # rest" "ps' = before @ p\<lparr>p_agenda := rest\<rparr> # after"
        by blast
      from h(1,3) Nil obtain b' where b': "before = q # b'" by (cases before) auto
      then have "qs = b' @ p # after" "list_all (\<lambda>q. p_agenda q = []) b'"
        using h(1,2) by simp_all
      then have "pop_next qs = Some (c, b' @ p\<lparr>p_agenda := rest\<rparr> # after)"
        using Cons.IH [of "b' @ p\<lparr>p_agenda := rest\<rparr> # after"] h(3) by blast
      then show "pop_next (q # qs) = Some (c, ps')"
        using Nil h(4) b' by simp
    qed
  next
    case (Cons a as)
    show ?thesis
    proof
      assume "pop_next (q # qs) = Some (c, ps')"
      then have "a = c" "ps' = q\<lparr>p_agenda := as\<rparr> # qs" using Cons by auto
      then have "q # qs = [] @ q # qs \<and> list_all (\<lambda>q. p_agenda q = []) [] \<and>
          p_agenda q = c # as \<and> ps' = [] @ q\<lparr>p_agenda := as\<rparr> # qs"
        using Cons by simp
      then show "\<exists>before p rest after.
          q # qs = before @ p # after \<and> list_all (\<lambda>q. p_agenda q = []) before \<and>
          p_agenda p = c # rest \<and> ps' = before @ p\<lparr>p_agenda := rest\<rparr> # after"
        by blast
    next
      assume "\<exists>before p rest after.
          q # qs = before @ p # after \<and> list_all (\<lambda>q. p_agenda q = []) before \<and>
          p_agenda p = c # rest \<and> ps' = before @ p\<lparr>p_agenda := rest\<rparr> # after"
      then obtain before p rest after where
        h: "q # qs = before @ p # after" "list_all (\<lambda>q. p_agenda q = []) before"
        "p_agenda p = c # rest" "ps' = before @ p\<lparr>p_agenda := rest\<rparr> # after"
        by blast
      have "before = []"
      proof (cases before)
        case Nil
        then show ?thesis .
      next
        case (Cons b bs)
        then have "b = q" using h(1) by simp
        then show ?thesis using h(2) Cons \<open>p_agenda q = a # as\<close> by simp
      qed
      then show "pop_next (q # qs) = Some (c, ps')"
        using h Cons by auto
    qed
  qed
qed

lemma pop_next_selects: "pop_next ps = Some (c, ps') \<longleftrightarrow> selects ps c ps'"
  unfolding selects_def by (rule pop_next_order)

lemma pop_next_None: "pop_next ps = None \<longleftrightarrow> list_all (\<lambda>p. p_agenda p = []) ps"
  by (induction ps) (auto split: list.splits)

lemma run_sound:
  "propagate_loop fuel ce executed = Some r \<Longrightarrow> run ce executed r"
proof (induction fuel arbitrary: ce executed)
  case 0
  then show ?case by simp
next
  case (Suc fuel)
  show ?case
  proof (cases "consistency ce = Inconsistent")
    case True
    then have "r = Inr (ce, executed)" using Suc.prems by (simp add: loop_body_def)
    then show ?thesis using True by (simp add: run.inconsistent)
  next
    case ni: False
    show ?thesis
    proof (cases "pop_next (propagators ce)")
      case None
      then have "r = Inr (ce\<lparr>consistency := Consistent\<rparr>, executed)"
        using Suc.prems ni by (simp add: loop_body_def)
      then show ?thesis using ni None by (simp add: run.drained pop_next_None)
    next
      case (Some q)
      obtain c ps where q: "q = (c, ps)" by (cases q)
      then have sel: "selects (propagators ce) c ps"
        using Some by (simp add: pop_next_selects)
      show ?thesis
      proof (cases "constraints ce c")
        case None
        then have "propagate_loop fuel (ce\<lparr>propagators := ps\<rparr>) executed = Some r"
          using Suc.prems ni Some q by (simp add: loop_body_def)
        from Suc.IH [OF this] show ?thesis
          using ni sel None by (rule run.unregistered [rotated 3])
      next
        case con: (Some con)
        show ?thesis
        proof (cases "c_state con = Active")
          case False
          then have "propagate_loop fuel (ce\<lparr>propagators := ps\<rparr>) executed = Some r"
            using Suc.prems ni Some q con by (simp add: loop_body_def)
          from Suc.IH [OF this] show ?thesis
            using ni sel con False by (rule run.not_active [rotated 4])
        next
          case True
          show ?thesis
          proof (cases "execute (ce\<lparr>propagators := ps\<rparr>) con")
            case (Inl err)
            then have "r = Inl err"
              using Suc.prems ni Some q con True by (simp add: loop_body_def)
            then show ?thesis using run.failed [OF ni sel con True Inl] by simp
          next
            case (Inr p)
            obtain ce' em where p: "p = (ce', em)" by (cases p)
            show ?thesis
            proof (cases em)
              case True
              then have "r = Inr (ce'\<lparr>consistency := Inconsistent\<rparr>, executed @ [c])"
                using Suc.prems ni Some q con \<open>c_state con = Active\<close> Inr p
                by (simp add: loop_body_def)
              then show ?thesis
                using run.emptied [OF ni sel con \<open>c_state con = Active\<close>] Inr p True by simp
            next
              case False
              then have "propagate_loop fuel ce' (executed @ [c]) = Some r"
                using Suc.prems ni Some q con \<open>c_state con = Active\<close> Inr p
                by (simp add: loop_body_def)
              from Suc.IH [OF this] show ?thesis
                using run.executed [OF ni sel con \<open>c_state con = Active\<close>] Inr p False
                by simp
            qed
          qed
        qed
      qed
    qed
  qed
qed

lemma run_complete:
  "run ce executed r \<Longrightarrow> \<exists>fuel. propagate_loop fuel ce executed = Some r"
proof (induction rule: run.induct)
  case (inconsistent ce executed)
  then have "propagate_loop (Suc 0) ce executed = Some (Inr (ce, executed))"
    by (simp add: loop_body_def)
  then show ?case by blast
next
  case (drained ce executed)
  then have "propagate_loop (Suc 0) ce executed
               = Some (Inr (ce\<lparr>consistency := Consistent\<rparr>, executed))"
    by (simp add: loop_body_def pop_next_None [symmetric])
  then show ?case by blast
next
  case (unregistered ce c ps executed result)
  then obtain fuel where
    "propagate_loop fuel (ce\<lparr>propagators := ps\<rparr>) executed = Some result" by blast
  moreover have "pop_next (propagators ce) = Some (c, ps)"
    using unregistered by (simp add: pop_next_selects)
  ultimately have "propagate_loop (Suc fuel) ce executed = Some result"
    using unregistered by (simp add: loop_body_def)
  then show ?case by blast
next
  case (not_active ce c ps con executed result)
  then obtain fuel where
    "propagate_loop fuel (ce\<lparr>propagators := ps\<rparr>) executed = Some result" by blast
  moreover have "pop_next (propagators ce) = Some (c, ps)"
    using not_active by (simp add: pop_next_selects)
  ultimately have "propagate_loop (Suc fuel) ce executed = Some result"
    using not_active by (simp add: loop_body_def)
  then show ?case by blast
next
  case (failed ce c ps con err executed)
  have "pop_next (propagators ce) = Some (c, ps)"
    using failed by (simp add: pop_next_selects)
  then have "propagate_loop (Suc 0) ce executed = Some (Inl err)"
    using failed by (simp add: loop_body_def)
  then show ?case by blast
next
  case (emptied ce c ps con ce' executed)
  have "pop_next (propagators ce) = Some (c, ps)"
    using emptied by (simp add: pop_next_selects)
  then have "propagate_loop (Suc 0) ce executed
               = Some (Inr (ce'\<lparr>consistency := Inconsistent\<rparr>, executed @ [c]))"
    using emptied by (simp add: loop_body_def)
  then show ?case by blast
next
  case (executed ce c ps con ce' executed result)
  then obtain fuel where "propagate_loop fuel ce' (executed @ [c]) = Some result" by blast
  moreover have "pop_next (propagators ce) = Some (c, ps)"
    using executed by (simp add: pop_next_selects)
  ultimately have "propagate_loop (Suc fuel) ce executed = Some result"
    using executed by (simp add: loop_body_def)
  then show ?case by blast
qed

lemma propagate_loop_more_fuel:
  "propagate_loop n ce executed = Some r \<Longrightarrow> propagate_loop (n + k) ce executed = Some r"
proof (induction n arbitrary: ce executed)
  case 0
  then show ?case by simp
next
  case (Suc n)
  then show ?case by (cases "loop_body ce executed") simp_all
qed

lemma run_same_result:
  assumes "structurally_identical ce1 ce2"
    and "run ce1 executed r1" and "run ce2 executed r2"
  shows "same_result r1 r2"
proof -
  obtain n1 where n1: "propagate_loop n1 ce1 executed = Some r1"
    using run_complete [OF assms(2)] by blast
  obtain n2 where n2: "propagate_loop n2 ce2 executed = Some r2"
    using run_complete [OF assms(3)] by blast
  have "propagate_loop (n1 + n2) ce1 executed = Some r1"
    by (rule propagate_loop_more_fuel [OF n1])
  moreover have "propagate_loop (n1 + n2) ce2 executed = Some r2"
    using propagate_loop_more_fuel [OF n2, of n1] by (simp add: add.commute)
  ultimately show ?thesis
    using si_propagate_loop [OF assms(1), of "n1 + n2" executed]
    by (simp add: same_run_def)
qed

lemma activate_in_appends:
  assumes "list_all (\<lambda>q. ty \<notin> set (p_types q)) before" and "ty \<in> set (p_types p)"
  shows "activate_in ty c (before @ p # after)
           = before @ p\<lparr>p_agenda := (if c \<in> set (p_agenda p) then p_agenda p
                                      else p_agenda p @ [c])\<rparr> # after"
  using assms by (induction before) (simp_all add: enqueue_def)

lemma replay_append:
  "replay fuel ce (rs @ rs') executed =
     (case replay fuel ce rs executed of
        Some (Inr (ce', executed')) \<Rightarrow> replay fuel ce' rs' executed'
      | r \<Rightarrow> r)"
proof (induction rs arbitrary: ce executed)
  case Nil
  then show ?case by simp
next
  case (Cons x rs)
  obtain v other where x: "x = (v, other)" by (cases x)
  show ?case
    unfolding x using Cons.IH
    by (simp split: option.splits sum.splits prod.splits)
qed

lemma replay_single: "replay fuel ce [(v, other)] [] = restrict fuel ce v other"
  by (simp split: option.splits sum.splits prod.splits)

lemma activate_flags:
  "propagating (activate ce c) = propagating ce" "deferred (activate ce c) = deferred ce"
  by (simp_all add: activate_def split: option.splits)

lemma fold_activate_flags:
  "propagating (fold (\<lambda>c e. activate e c) cs ce) = propagating ce \<and>
   deferred (fold (\<lambda>c e. activate e c) cs ce) = deferred ce"
  by (induction cs arbitrary: ce) (simp_all add: activate_flags)

lemma restrict_variable_flags:
  assumes "restrict_variable ce ex v other = Inr (ce', ev)"
  shows "propagating ce' = propagating ce" "deferred ce' = deferred ce"
  using assms
  by (auto simp add: restrict_variable_def notify_def fold_activate_flags Let_def
      split: option.splits sum.splits prod.splits)

lemma restrict_run:
  assumes "\<not> propagating ce" and "deferred ce = 0"
    and "restrict fuel ce v other = Some (Inr (ce', executed))"
  shows "\<exists>ce0 ev final.
           restrict_variable ce None v other = Inr (ce0, ev) \<and>
           run ((if ev = Some EMPTIED then ce0\<lparr>consistency := Inconsistent\<rparr> else ce0)
                  \<lparr>propagating := True\<rparr>) [] (Inr (final, executed)) \<and>
           ce' = final\<lparr>propagating := False\<rparr>"
proof -
  from assms(3) obtain ce0 ev where
    rv: "restrict_variable ce None v other = Inr (ce0, ev)" and
    pr: "propagate fuel (if ev = Some EMPTIED then ce0\<lparr>consistency := Inconsistent\<rparr> else ce0)
           = Some (Inr (ce', executed))"
    by (auto simp add: restrict_def split: option.splits sum.splits prod.splits if_splits)
  define start where
    "start = (if ev = Some EMPTIED then ce0\<lparr>consistency := Inconsistent\<rparr> else ce0)"
  have fl: "\<not> propagating start" "deferred start = 0"
    using restrict_variable_flags [OF rv] assms(1,2) by (simp_all add: start_def)
  from pr fl obtain final where
    lp: "propagate_loop fuel (start\<lparr>propagating := True\<rparr>) [] = Some (Inr (final, executed))"
    and fin: "ce' = final\<lparr>propagating := False\<rparr>"
    by (auto simp add: propagate_def start_def [symmetric]
        split: option.splits sum.splits prod.splits)
  from run_sound [OF lp] rv fin show ?thesis unfolding start_def by blast
qed

text \<open>
  C5. Replaying the same sequence of external restrictions on two structurally
  identical engines gives the same outcome: the same sequence of constraint executions
  and the same final domain of every variable (the engines stay structurally
  identical). The evaluation order of every run is the one fixed by priority tier, then
  insertion order: the runs of the loop are exactly the ordered runs, in which the
  constraint executed next is the oldest entry of the agenda of the first propagator, in
  priority order, whose agenda is not empty; two ordered runs from structurally
  identical engines have the same outcome; a restriction that is accepted changes the
  variable and then makes one ordered run from the engine so obtained; a replay is its
  restrictions one after the other; and a constraint is activated at the end of the
  agenda of the first propagator for its type, unless it is pending there already.
\<close>

theorem replay_deterministic:
  assumes "structurally_identical ce1 ce2"
  shows "same_outcome (replay fuel ce1 rs []) (replay fuel ce2 rs []) \<and>
         (run ce1 executed r1 \<and> run ce2 executed r2 \<longrightarrow> same_outcome (Some r1) (Some r2)) \<and>
         (run ce executed r \<longleftrightarrow> (\<exists>n. propagate_loop n ce executed = Some r)) \<and>
         (\<not> propagating ce \<and> deferred ce = 0 \<and>
          restrict fuel ce v other = Some (Inr (ce', trace)) \<longrightarrow>
            (\<exists>ce0 ev final.
               restrict_variable ce None v other = Inr (ce0, ev) \<and>
               run ((if ev = Some EMPTIED then ce0\<lparr>consistency := Inconsistent\<rparr> else ce0)
                      \<lparr>propagating := True\<rparr>) [] (Inr (final, trace)) \<and>
               ce' = final\<lparr>propagating := False\<rparr>)) \<and>
         replay fuel ce [(v, other)] [] = restrict fuel ce v other \<and>
         replay fuel ce (rs @ rs') trace =
           (case replay fuel ce rs trace of
              Some (Inr (mid, trace')) \<Rightarrow> replay fuel mid rs' trace'
            | r \<Rightarrow> r) \<and>
         (list_all (\<lambda>q. ty \<notin> set (p_types q)) before \<and> ty \<in> set (p_types p) \<longrightarrow>
            activate_in ty c (before @ p # after) =
              before @ p\<lparr>p_agenda := (if c \<in> set (p_agenda p) then p_agenda p
                                        else p_agenda p @ [c])\<rparr> # after)"
proof (intro conjI impI)
  show "same_outcome (replay fuel ce1 rs []) (replay fuel ce2 rs [])"
    by (rule same_run_outcome [OF si_replay [OF assms]])
next
  assume "run ce1 executed r1 \<and> run ce2 executed r2"
  then have "same_result r1 r2" using run_same_result [OF assms] by blast
  then have "same_run (Some r1) (Some r2)" by (simp add: same_run_def)
  then show "same_outcome (Some r1) (Some r2)" by (rule same_run_outcome)
next
  show "run ce executed r \<longleftrightarrow> (\<exists>n. propagate_loop n ce executed = Some r)"
    using run_sound run_complete by blast
next
  assume "\<not> propagating ce \<and> deferred ce = 0 \<and>
          restrict fuel ce v other = Some (Inr (ce', trace))"
  then show "\<exists>ce0 ev final.
               restrict_variable ce None v other = Inr (ce0, ev) \<and>
               run ((if ev = Some EMPTIED then ce0\<lparr>consistency := Inconsistent\<rparr> else ce0)
                      \<lparr>propagating := True\<rparr>) [] (Inr (final, trace)) \<and>
               ce' = final\<lparr>propagating := False\<rparr>"
    using restrict_run by blast
next
  show "replay fuel ce [(v, other)] [] = restrict fuel ce v other"
    by (rule replay_single)
next
  show "replay fuel ce (rs @ rs') trace =
           (case replay fuel ce rs trace of
              Some (Inr (mid, trace')) \<Rightarrow> replay fuel mid rs' trace'
            | r \<Rightarrow> r)"
    by (rule replay_append)
next
  assume "list_all (\<lambda>q. ty \<notin> set (p_types q)) before \<and> ty \<in> set (p_types p)"
  then show "activate_in ty c (before @ p # after) =
              before @ p\<lparr>p_agenda := (if c \<in> set (p_agenda p) then p_agenda p
                                        else p_agenda p @ [c])\<rparr> # after"
    using activate_in_appends by blast
qed

theorem replay_deterministic_witness:
  "structurally_identical first_engine second_engine \<and>
   same_outcome
     (replay 4 first_engine [(1, IntervalIntDomain 1 9), (1, IntervalIntDomain 1 8)] [])
     (replay 4 second_engine [(1, IntervalIntDomain 1 9), (1, IntervalIntDomain 1 8)] []) \<and>
   (\<exists>ce. replay 4 first_engine [(1, IntervalIntDomain 1 9), (1, IntervalIntDomain 1 8)] []
            = Some (Inr (ce, [20, 10, 11, 20, 10, 11])) \<and>
         map_option v_domain (variables ce 1) = Some (IntervalIntDomain 2 8)) \<and>
   (\<exists>a b ra rb.
      restrict_variable first_engine None 1 (IntervalIntDomain 1 9) = Inr (a, Some RESTRICTED) \<and>
      restrict_variable second_engine None 1 (IntervalIntDomain 1 9) = Inr (b, Some RESTRICTED) \<and>
      map p_agenda (propagators a) = [[20], [10, 11]] \<and>
      run (a\<lparr>propagating := True\<rparr>) [] (Inr (ra, [20, 10, 11])) \<and>
      run (b\<lparr>propagating := True\<rparr>) [] (Inr (rb, [20, 10, 11])) \<and>
      same_outcome (Some (Inr (ra, [20, 10, 11]))) (Some (Inr (rb, [20, 10, 11]))) \<and>
      (\<exists>n. propagate_loop n (a\<lparr>propagating := True\<rparr>) [] = Some (Inr (ra, [20, 10, 11])))) \<and>
   activate_in ''default'' 11
       [\<lparr>p_key = 1, p_types = [''temporal''], p_agenda = [20]\<rparr>,
        \<lparr>p_key = 2, p_types = [''default''], p_agenda = [10]\<rparr>]
     = [\<lparr>p_key = 1, p_types = [''temporal''], p_agenda = [20]\<rparr>,
        \<lparr>p_key = 2, p_types = [''default''], p_agenda = [10, 11]\<rparr>] \<and>
   activate_in ''default'' 10
       [\<lparr>p_key = 1, p_types = [''temporal''], p_agenda = [20]\<rparr>,
        \<lparr>p_key = 2, p_types = [''default''], p_agenda = [10, 11]\<rparr>]
     = [\<lparr>p_key = 1, p_types = [''temporal''], p_agenda = [20]\<rparr>,
        \<lparr>p_key = 2, p_types = [''default''], p_agenda = [10, 11]\<rparr>]"
proof -
  note evaluation = restrict_def propagate_def eval_nat_numeral loop_body_def
    execute_def restrict_variable_def intersect_def restriction_event_def notify_def
    activate_def enqueue_def Let_def
  have si: "structurally_identical first_engine second_engine"
    by (simp add: structurally_identical_def same_structure_def first_engine_def second_engine_def)
  note T = replay_deterministic [OF si]
  have c1: "same_outcome
     (replay 4 first_engine [(1, IntervalIntDomain 1 9), (1, IntervalIntDomain 1 8)] [])
     (replay 4 second_engine [(1, IntervalIntDomain 1 9), (1, IntervalIntDomain 1 8)] [])"
    by (rule T [THEN conjunct1])
  have c2: "\<exists>ce. replay 4 first_engine [(1, IntervalIntDomain 1 9), (1, IntervalIntDomain 1 8)] []
            = Some (Inr (ce, [20, 10, 11, 20, 10, 11])) \<and>
         map_option v_domain (variables ce 1) = Some (IntervalIntDomain 2 8)"
    by (simp add: first_engine_def evaluation)
  obtain a where a: "restrict_variable first_engine None 1 (IntervalIntDomain 1 9)
                       = Inr (a, Some RESTRICTED)"
      "map p_agenda (propagators a) = [[20], [10, 11]]"
    by (simp add: first_engine_def evaluation)
  obtain b where b: "restrict_variable second_engine None 1 (IntervalIntDomain 1 9)
                       = Inr (b, Some RESTRICTED)"
    by (simp add: second_engine_def evaluation)
  obtain a' where a': "restrict 4 first_engine 1 (IntervalIntDomain 1 9)
                         = Some (Inr (a', [20, 10, 11]))"
    by (simp add: first_engine_def evaluation)
  obtain b' where b': "restrict 4 second_engine 1 (IntervalIntDomain 1 9)
                         = Some (Inr (b', [20, 10, 11]))"
    by (simp add: second_engine_def evaluation)
  have fa: "\<not> propagating first_engine \<and> deferred first_engine = 0 \<and>
            restrict 4 first_engine 1 (IntervalIntDomain 1 9) = Some (Inr (a', [20, 10, 11]))"
    using a' by (simp add: first_engine_def)
  have fb: "\<not> propagating second_engine \<and> deferred second_engine = 0 \<and>
            restrict 4 second_engine 1 (IntervalIntDomain 1 9) = Some (Inr (b', [20, 10, 11]))"
    using b' by (simp add: second_engine_def)
  obtain ra where ra: "run (a\<lparr>propagating := True\<rparr>) [] (Inr (ra, [20, 10, 11]))"
    using T [THEN conjunct2, THEN conjunct2, THEN conjunct2, THEN conjunct1, rule_format, OF fa]
      a(1) by auto
  obtain rb where rb: "run (b\<lparr>propagating := True\<rparr>) [] (Inr (rb, [20, 10, 11]))"
    using T [THEN conjunct2, THEN conjunct2, THEN conjunct2, THEN conjunct1, rule_format, OF fb]
      b by auto
  have "same_result (Inr (a, Some RESTRICTED)) (Inr (b, Some RESTRICTED))"
    using si_restrict_variable [OF si, of None 1 "IntervalIntDomain 1 9"] a(1) b by simp
  then have si': "structurally_identical (a\<lparr>propagating := True\<rparr>) (b\<lparr>propagating := True\<rparr>)"
    by (simp add: structurally_identical_def)
  have c3: "same_outcome (Some (Inr (ra, [20, 10, 11]))) (Some (Inr (rb, [20, 10, 11])))"
    using replay_deterministic [OF si', THEN conjunct2, THEN conjunct1, rule_format] ra rb
    by blast
  have c4: "\<exists>n. propagate_loop n (a\<lparr>propagating := True\<rparr>) [] = Some (Inr (ra, [20, 10, 11]))"
    using T [THEN conjunct2, THEN conjunct2, THEN conjunct1] ra by blast
  have c5: "activate_in ''default'' 11
       ([\<lparr>p_key = 1, p_types = [''temporal''], p_agenda = [20]\<rparr>] @
        \<lparr>p_key = 2, p_types = [''default''], p_agenda = [10]\<rparr> # [])
     = [\<lparr>p_key = 1, p_types = [''temporal''], p_agenda = [20]\<rparr>] @
        \<lparr>p_key = 2, p_types = [''default''], p_agenda = [10]\<rparr>
          \<lparr>p_agenda := (if 11 \<in> set (p_agenda \<lparr>p_key = 2, p_types = [''default''],
                                                p_agenda = [10]\<rparr>)
                         then p_agenda \<lparr>p_key = 2, p_types = [''default''], p_agenda = [10]\<rparr>
                         else p_agenda \<lparr>p_key = 2, p_types = [''default''], p_agenda = [10]\<rparr>
                              @ [11])\<rparr> # []"
    by (rule T [THEN conjunct2, THEN conjunct2, THEN conjunct2, THEN conjunct2, THEN conjunct2,
          THEN conjunct2, rule_format]) simp
  have c6: "activate_in ''default'' 10
       ([\<lparr>p_key = 1, p_types = [''temporal''], p_agenda = [20]\<rparr>] @
        \<lparr>p_key = 2, p_types = [''default''], p_agenda = [10, 11]\<rparr> # [])
     = [\<lparr>p_key = 1, p_types = [''temporal''], p_agenda = [20]\<rparr>] @
        \<lparr>p_key = 2, p_types = [''default''], p_agenda = [10, 11]\<rparr>
          \<lparr>p_agenda := (if 10 \<in> set (p_agenda \<lparr>p_key = 2, p_types = [''default''],
                                                p_agenda = [10, 11]\<rparr>)
                         then p_agenda \<lparr>p_key = 2, p_types = [''default''],
                                         p_agenda = [10, 11]\<rparr>
                         else p_agenda \<lparr>p_key = 2, p_types = [''default''],
                                         p_agenda = [10, 11]\<rparr> @ [10])\<rparr> # []"
    by (rule T [THEN conjunct2, THEN conjunct2, THEN conjunct2, THEN conjunct2, THEN conjunct2,
          THEN conjunct2, rule_format]) simp
  have c5': "activate_in ''default'' 11
       [\<lparr>p_key = 1, p_types = [''temporal''], p_agenda = [20]\<rparr>,
        \<lparr>p_key = 2, p_types = [''default''], p_agenda = [10]\<rparr>]
     = [\<lparr>p_key = 1, p_types = [''temporal''], p_agenda = [20]\<rparr>,
        \<lparr>p_key = 2, p_types = [''default''], p_agenda = [10, 11]\<rparr>]"
    using c5 by simp
  have c6': "activate_in ''default'' 10
       [\<lparr>p_key = 1, p_types = [''temporal''], p_agenda = [20]\<rparr>,
        \<lparr>p_key = 2, p_types = [''default''], p_agenda = [10, 11]\<rparr>]
     = [\<lparr>p_key = 1, p_types = [''temporal''], p_agenda = [20]\<rparr>,
        \<lparr>p_key = 2, p_types = [''default''], p_agenda = [10, 11]\<rparr>]"
    using c6 by simp
  have c7: "\<exists>a b ra rb.
      restrict_variable first_engine None 1 (IntervalIntDomain 1 9) = Inr (a, Some RESTRICTED) \<and>
      restrict_variable second_engine None 1 (IntervalIntDomain 1 9) = Inr (b, Some RESTRICTED) \<and>
      map p_agenda (propagators a) = [[20], [10, 11]] \<and>
      run (a\<lparr>propagating := True\<rparr>) [] (Inr (ra, [20, 10, 11])) \<and>
      run (b\<lparr>propagating := True\<rparr>) [] (Inr (rb, [20, 10, 11])) \<and>
      same_outcome (Some (Inr (ra, [20, 10, 11]))) (Some (Inr (rb, [20, 10, 11]))) \<and>
      (\<exists>n. propagate_loop n (a\<lparr>propagating := True\<rparr>) [] = Some (Inr (ra, [20, 10, 11])))"
    by (rule exI [of _ a], rule exI [of _ b], rule exI [of _ ra], rule exI [of _ rb])
      (intro conjI a b ra rb c3 c4)
  show ?thesis
    using si c1 c2 c7 c5' c6' by blast
qed

end
